theory Spec2Isabelle
  imports Complex_Main
begin

section \<open>NYC collisions wrangling pipeline (nyc_collisions_wrangling.py)\<close>

text \<open>
  A shallow embedding of the seven-stage pipeline of \<^verbatim>\<open>nyc_collisions_wrangling.py\<close>.
  The script is written against pandas 2.x; each pandas call it makes is given a
  definition of its own below, named after the call, and the script's functions are
  translated line by line on top of them.

  Conventions of the embedding:
  \<^item> a DataFrame is a record of its ordered, typed columns and its rows; a row is an
    association list from column names to cells, and a name without an entry reads as
    a null;
  \<^item> all null markers of pandas (NaN, None, NaT, pd.NA) are the one cell \<open>NA\<close>;
  \<^item> the text of a cell is a Python \<open>str\<close>: the list of its Unicode code points;
    column names, file names and messages are Isabelle strings;
  \<^item> numbers are exact: a float cell holds a rational, an integer cell an integer;
  \<^item> an uncaught Python exception is the \<open>Inl\<close> branch of a sum type.
\<close>

subsection \<open>Column schema\<close>

definition INJURY_COLS :: "string list" where
  "INJURY_COLS =
    [''NUMBER OF PERSONS INJURED'',
     ''NUMBER OF PERSONS KILLED'',
     ''NUMBER OF PEDESTRIANS INJURED'',
     ''NUMBER OF PEDESTRIANS KILLED'',
     ''NUMBER OF CYCLIST INJURED'',
     ''NUMBER OF CYCLIST KILLED'',
     ''NUMBER OF MOTORIST INJURED'',
     ''NUMBER OF MOTORIST KILLED'']"

definition TEXT_COLS :: "string list" where
  "TEXT_COLS =
    [''BOROUGH'',
     ''CONTRIBUTING FACTOR VEHICLE 1'',
     ''CONTRIBUTING FACTOR VEHICLE 2'',
     ''CONTRIBUTING FACTOR VEHICLE 3'',
     ''CONTRIBUTING FACTOR VEHICLE 4'',
     ''CONTRIBUTING FACTOR VEHICLE 5'',
     ''ON STREET NAME'',
     ''CROSS STREET NAME'',
     ''OFF STREET NAME'']"

definition DATE_COLS :: "string list" where
  "DATE_COLS = [''CRASH_DATE'']"

definition TIME_COLS :: "string list" where
  "TIME_COLS = [''CRASH_TIME'']"

definition LOCATION_COLS :: "string list" where
  "LOCATION_COLS = [''LATITUDE'', ''LONGITUDE'']"

definition UNIQUE_KEY_COL :: string where
  "UNIQUE_KEY_COL = ''UNIQUE KEY''"

text \<open>The list literal of the sentinel-replacement loop in \<open>clean_text\<close>.\<close>

definition FACTOR_COLS :: "string list" where
  "FACTOR_COLS =
    [''CONTRIBUTING FACTOR VEHICLE 1'',
     ''CONTRIBUTING FACTOR VEHICLE 2'',
     ''CONTRIBUTING FACTOR VEHICLE 3'',
     ''CONTRIBUTING FACTOR VEHICLE 4'',
     ''CONTRIBUTING FACTOR VEHICLE 5'']"

subsection \<open>Cells, dtypes and frames\<close>

datatype timestamp =
  Timestamp (ts_year: int) (ts_month: nat) (ts_day: nat)
            (ts_hour: nat) (ts_minute: nat) (ts_second: nat)

type_synonym unicode = "nat list"

datatype cell =
    NA
  | IntV int
  | FloatV rat
  | StrV unicode
  | TsV timestamp
  | TimeV nat nat

datatype dtype =
    D_int64
  | D_int32
  | D_float64
  | D_object
  | D_datetime64
  | D_Int64
  | D_category
  | D_string

datatype exn =
    TypeError string
  | KeyError string
  | AttributeError string
  | ValueError string
  | ImportError string
  | OSError string
  | ParserError string

text \<open>The text that an ASCII string literal of the script denotes, and the cell that holds it.\<close>

definition text_of :: "string \<Rightarrow> unicode" where
  "text_of s = map of_char s"

abbreviation Str :: "string \<Rightarrow> cell" where
  "Str s \<equiv> StrV (text_of s)"

type_synonym row = "(string \<times> cell) list"

definition get_cell :: "row \<Rightarrow> string \<Rightarrow> cell" where
  "get_cell r c = (case map_of r c of Some v \<Rightarrow> v | None \<Rightarrow> NA)"

fun set_cell :: "row \<Rightarrow> string \<Rightarrow> cell \<Rightarrow> row" where
  "set_cell [] c v = [(c, v)]"
| "set_cell ((k, x) # r) c v = (if k = c then (k, v) # r else (k, x) # set_cell r c v)"

record dataframe =
  columns :: "(string \<times> dtype) list"
  rows :: "row list"

definition col_names :: "dataframe \<Rightarrow> string list" where
  "col_names df = map fst (columns df)"

definition has_col :: "dataframe \<Rightarrow> string \<Rightarrow> bool" where
  "has_col df c = (c \<in> set (col_names df))"

definition dtype_of :: "dataframe \<Rightarrow> string \<Rightarrow> dtype option" where
  "dtype_of df c = map_of (columns df) c"

definition col_values :: "dataframe \<Rightarrow> string \<Rightarrow> cell list" where
  "col_values df c = map (\<lambda>r. get_cell r c) (rows df)"

text \<open>
  \<^verbatim>\<open>df[c] = series\<close>: the column keeps its position when it exists and is appended
  otherwise; \<open>dt\<close> is the dtype of the new series and \<open>f\<close> computes its cell from the
  row it belongs to.
\<close>

definition set_dtype :: "(string \<times> dtype) list \<Rightarrow> string \<Rightarrow> dtype \<Rightarrow> (string \<times> dtype) list" where
  "set_dtype cs c dt =
     (if c \<in> set (map fst cs) then map (\<lambda>(n, d). if n = c then (n, dt) else (n, d)) cs
      else cs @ [(c, dt)])"

definition assign_col :: "dataframe \<Rightarrow> string \<Rightarrow> dtype \<Rightarrow> (row \<Rightarrow> cell) \<Rightarrow> dataframe" where
  "assign_col df c dt f =
     df\<lparr>columns := set_dtype (columns df) c dt,
        rows := map (\<lambda>r. set_cell r c (f r)) (rows df)\<rparr>"

subsection \<open>The library interface\<close>

text \<open>
  The parsers and writers of pandas that the script calls are parameters of the model:
  \<^item> \<open>to_datetime\<close>: the element parser \<^verbatim>\<open>pd.to_datetime(col, errors="coerce")\<close> uses
    for a given column (the format may be inferred from the column); \<open>None\<close> is a
    value that does not parse;
  \<^item> \<open>to_time\<close>: \<^verbatim>\<open>pd.to_datetime(col, format="%H:%M", errors="coerce").dt.time\<close>
    on one value;
  \<^item> \<open>to_numeric\<close>: \<^verbatim>\<open>pd.to_numeric(..., errors="coerce")\<close> on one string;
  \<^item> \<open>py_str\<close>: the text \<^verbatim>\<open>astype("string")\<close> gives a value that is not a string;
  \<^item> \<open>py_title\<close>: Python's \<^verbatim>\<open>str.title\<close>, which \<^verbatim>\<open>.str.title()\<close> applies to each
    string; it follows the case mappings of the Unicode character database;
  \<^item> \<open>read_csv\<close>, \<open>to_json\<close>, \<open>to_parquet\<close>: reading the source file and writing an
    export; a writer returns the exception it raises, or \<open>None\<close> when the file is
    written;
  \<^item> \<open>argsort\<close>: NumPy's \<^verbatim>\<open>argsort(kind="quicksort")\<close> on a list of counts: the
    positions of the list in ascending order of their counts. The sort is not stable:
    the order it gives to positions with equal counts is not fixed.
\<close>

type_synonym path = "string \<times> string"

record pandas =
  to_datetime :: "cell list \<Rightarrow> cell \<Rightarrow> timestamp option"
  to_time :: "cell \<Rightarrow> (nat \<times> nat) option"
  to_numeric :: "unicode \<Rightarrow> rat option"
  py_str :: "cell \<Rightarrow> unicode"
  py_title :: "unicode \<Rightarrow> unicode"
  read_csv :: "string \<Rightarrow> exn + dataframe"
  to_json :: "dataframe \<Rightarrow> path \<Rightarrow> exn option"
  to_parquet :: "dataframe \<Rightarrow> path \<Rightarrow> exn option"
  argsort :: "nat list \<Rightarrow> nat list"

subsection \<open>Text operations (\<open>str.strip\<close>)\<close>

text \<open>
  \<^verbatim>\<open>str.strip()\<close> removes the leading and trailing white space; the white-space
  characters of Python are U+0009 to U+000D, U+001C to U+0020, U+0085, U+00A0,
  U+1680, U+2000 to U+200A, U+2028, U+2029, U+202F, U+205F and U+3000.
\<close>

definition is_space :: "nat \<Rightarrow> bool" where
  "is_space n =
     ((9 \<le> n \<and> n \<le> 13) \<or> (28 \<le> n \<and> n \<le> 32) \<or> n = 133 \<or> n = 160 \<or> n = 5760
      \<or> (8192 \<le> n \<and> n \<le> 8202) \<or> n = 8232 \<or> n = 8233 \<or> n = 8239 \<or> n = 8287
      \<or> n = 12288)"

definition strip :: "unicode \<Rightarrow> unicode" where
  "strip s = rev (dropWhile is_space (rev (dropWhile is_space s)))"

subsection \<open>Stage 2: \<open>handle_missing_values\<close>\<close>

definition ensure_columns_exist :: "dataframe \<Rightarrow> string list \<Rightarrow> string list" where
  "ensure_columns_exist df cols = filter (\<lambda>c. c \<in> set (col_names df)) cols"

text \<open>\<^verbatim>\<open>df.dropna(subset=cols)\<close>: a row stays when none of its listed cells is null.\<close>

definition dropna :: "dataframe \<Rightarrow> string list \<Rightarrow> dataframe" where
  "dropna df subset_cols =
     df\<lparr>rows := filter (\<lambda>r. \<forall>c \<in> set subset_cols. get_cell r c \<noteq> NA) (rows df)\<rparr>"

text \<open>
  \<^verbatim>\<open>df[cols] = df[cols].fillna(0)\<close>: the zero is a float in a float column and the
  integer 0 elsewhere; the dtypes stay.
\<close>

definition zero_of :: "dtype option \<Rightarrow> cell" where
  "zero_of dt = (if dt = Some D_float64 then FloatV 0 else IntV 0)"

definition fillna_zero :: "dataframe \<Rightarrow> string list \<Rightarrow> dataframe" where
  "fillna_zero df cols =
     df\<lparr>rows := map (fold (\<lambda>c r. set_cell r c (if get_cell r c = NA then zero_of (dtype_of df c)
                                                 else get_cell r c)) cols)
                     (rows df)\<rparr>"

text \<open>
  \<^verbatim>\<open>df[c] = df[c].fillna("Unknown")\<close>: a float column that has a null becomes an
  object column; any other dtype stays.
\<close>

definition fillna_str :: "dataframe \<Rightarrow> string \<Rightarrow> unicode \<Rightarrow> dataframe" where
  "fillna_str df c s =
     (let dt = (case dtype_of df c of
                  Some D_float64 \<Rightarrow> (if NA \<in> set (col_values df c) then D_object else D_float64)
                | Some d \<Rightarrow> d
                | None \<Rightarrow> D_object)
      in assign_col df c dt (\<lambda>r. if get_cell r c = NA then StrV s else get_cell r c))"

definition handle_missing_values :: "dataframe \<Rightarrow> dataframe" where
  "handle_missing_values df =
     (let loc_cols = ensure_columns_exist df LOCATION_COLS;
          df1 = (if loc_cols \<noteq> [] then dropna df loc_cols else df);
          injuries = ensure_columns_exist df1 INJURY_COLS;
          df2 = (if injuries \<noteq> [] then fillna_zero df1 injuries else df1)
      in if ''CONTRIBUTING FACTOR VEHICLE 1'' \<in> set (col_names df2)
         then fillna_str df2 ''CONTRIBUTING FACTOR VEHICLE 1'' (text_of ''Unknown'')
         else df2)"

subsection \<open>Stage 3: \<open>correct_types\<close>\<close>

definition to_datetime_col :: "pandas \<Rightarrow> dataframe \<Rightarrow> string \<Rightarrow> dataframe" where
  "to_datetime_col pd df c =
     (let parse = to_datetime pd (col_values df c)
      in assign_col df c D_datetime64
           (\<lambda>r. case get_cell r c of
                   NA \<Rightarrow> NA
                 | TsV t \<Rightarrow> TsV t
                 | v \<Rightarrow> (case parse v of None \<Rightarrow> NA | Some t \<Rightarrow> TsV t)))"

definition to_time_col :: "pandas \<Rightarrow> dataframe \<Rightarrow> string \<Rightarrow> dataframe" where
  "to_time_col pd df c =
     assign_col df c D_object
       (\<lambda>r. case get_cell r c of
               NA \<Rightarrow> NA
             | v \<Rightarrow> (case to_time pd v of None \<Rightarrow> NA | Some (h, m) \<Rightarrow> TimeV h m))"

text \<open>\<^verbatim>\<open>pd.to_numeric(col, errors="coerce")\<close> on one cell.\<close>

definition to_numeric_cell :: "pandas \<Rightarrow> cell \<Rightarrow> cell" where
  "to_numeric_cell pd v =
     (case v of
        IntV i \<Rightarrow> IntV i
      | FloatV q \<Rightarrow> FloatV q
      | StrV s \<Rightarrow> (case to_numeric pd s of None \<Rightarrow> NA | Some q \<Rightarrow> FloatV q)
      | _ \<Rightarrow> NA)"

text \<open>
  \<^verbatim>\<open>.astype("Int64")\<close>: the cast is refused (\<open>TypeError\<close>) as soon as one value is
  not the same number after the cast to a 64-bit integer.
\<close>

definition int64_ok :: "int \<Rightarrow> bool" where
  "int64_ok i = (- (2 ^ 63) \<le> i \<and> i < 2 ^ 63)"

definition safe_cast_ok :: "cell \<Rightarrow> bool" where
  "safe_cast_ok v =
     (case v of
        NA \<Rightarrow> True
      | IntV i \<Rightarrow> int64_ok i
      | FloatV q \<Rightarrow> of_int \<lfloor>q\<rfloor> = q \<and> int64_ok \<lfloor>q\<rfloor>
      | _ \<Rightarrow> False)"

definition cast_Int64 :: "cell \<Rightarrow> cell" where
  "cast_Int64 v = (case v of IntV i \<Rightarrow> IntV i | FloatV q \<Rightarrow> IntV \<lfloor>q\<rfloor> | _ \<Rightarrow> NA)"

definition astype_Int64 :: "pandas \<Rightarrow> dataframe \<Rightarrow> string \<Rightarrow> exn + dataframe" where
  "astype_Int64 pd df c =
     (if \<forall>v \<in> set (col_values df c). safe_cast_ok (to_numeric_cell pd v)
      then Inr (assign_col df c D_Int64 (\<lambda>r. cast_Int64 (to_numeric_cell pd (get_cell r c))))
      else Inl (TypeError ''cannot safely cast non-equivalent float64 to int64''))"

text \<open>The loop over the injury columns stops at the first column whose cast raises.\<close>

fun injuries_to_Int64 :: "pandas \<Rightarrow> string list \<Rightarrow> dataframe \<Rightarrow> exn + dataframe" where
  "injuries_to_Int64 pd [] df = Inr df"
| "injuries_to_Int64 pd (c # cs) df =
     (case astype_Int64 pd df c of
        Inl e \<Rightarrow> Inl e
      | Inr df' \<Rightarrow> injuries_to_Int64 pd cs df')"

definition astype_category :: "dataframe \<Rightarrow> string \<Rightarrow> dataframe" where
  "astype_category df c = assign_col df c D_category (\<lambda>r. get_cell r c)"

definition correct_types :: "pandas \<Rightarrow> dataframe \<Rightarrow> exn + dataframe" where
  "correct_types pd df =
     (let df1 = fold (\<lambda>c d. to_datetime_col pd d c) (ensure_columns_exist df DATE_COLS) df;
          df2 = fold (\<lambda>c d. to_time_col pd d c) (ensure_columns_exist df1 TIME_COLS) df1
      in case injuries_to_Int64 pd (ensure_columns_exist df2 INJURY_COLS) df2 of
           Inl e \<Rightarrow> Inl e
         | Inr df3 \<Rightarrow>
             Inr (if ''BOROUGH'' \<in> set (col_names df3) then astype_category df3 ''BOROUGH''
                  else df3))"

subsection \<open>Stage 4: \<open>clean_text\<close>\<close>

definition is_str :: "cell \<Rightarrow> bool" where
  "is_str v = (case v of StrV _ \<Rightarrow> True | _ \<Rightarrow> False)"

text \<open>
  \<^verbatim>\<open>pd.api.types.is_string_dtype(df[c])\<close> (pandas 2.x): a \<open>string\<close> column, or an
  object column all of whose elements are strings.
\<close>

definition is_string_dtype :: "dataframe \<Rightarrow> string \<Rightarrow> bool" where
  "is_string_dtype df c =
     (dtype_of df c = Some D_string \<or>
      (dtype_of df c = Some D_object \<and> (\<forall>v \<in> set (col_values df c). is_str v)))"

text \<open>\<^verbatim>\<open>df[c].astype("string").str.strip()\<close> on one cell.\<close>

definition strip_cell :: "pandas \<Rightarrow> cell \<Rightarrow> cell" where
  "strip_cell pd v = (case v of NA \<Rightarrow> NA | StrV s \<Rightarrow> StrV (strip s) | _ \<Rightarrow> StrV (strip (py_str pd v)))"

definition strip_col :: "pandas \<Rightarrow> string \<Rightarrow> dataframe \<Rightarrow> dataframe" where
  "strip_col pd c df =
     (if is_string_dtype df c \<or> dtype_of df c = Some D_category
      then assign_col df c D_string (\<lambda>r. strip_cell pd (get_cell r c))
      else df)"

text \<open>
  \<^verbatim>\<open>df["BOROUGH"].str.title()\<close>: the \<open>.str\<close> accessor exists on string-like columns
  only (\<open>AttributeError\<close> otherwise); an element that is not a string gives a null.
\<close>

definition title_cell :: "pandas \<Rightarrow> cell \<Rightarrow> cell" where
  "title_cell pd v = (case v of StrV s \<Rightarrow> StrV (py_title pd s) | _ \<Rightarrow> NA)"

definition str_title :: "pandas \<Rightarrow> dataframe \<Rightarrow> string \<Rightarrow> exn + dataframe" where
  "str_title pd df c =
     (case dtype_of df c of
        Some D_string \<Rightarrow> Inr (assign_col df c D_string (\<lambda>r. title_cell pd (get_cell r c)))
      | Some D_object \<Rightarrow> Inr (assign_col df c D_object (\<lambda>r. title_cell pd (get_cell r c)))
      | Some D_category \<Rightarrow> Inr (assign_col df c D_object (\<lambda>r. title_cell pd (get_cell r c)))
      | _ \<Rightarrow> Inl (AttributeError ''Can only use .str accessor with string values!''))"

text \<open>\<^verbatim>\<open>df[c].replace("Unspecified", pd.NA)\<close>: an exact match on the whole cell.\<close>

definition replace_cell :: "unicode \<Rightarrow> cell \<Rightarrow> cell" where
  "replace_cell s v = (if v = StrV s then NA else v)"

definition replace_col :: "unicode \<Rightarrow> string \<Rightarrow> dataframe \<Rightarrow> dataframe" where
  "replace_col s c df =
     df\<lparr>rows := map (\<lambda>r. set_cell r c (replace_cell s (get_cell r c))) (rows df)\<rparr>"

definition clean_text :: "pandas \<Rightarrow> dataframe \<Rightarrow> exn + dataframe" where
  "clean_text pd df =
     (let df1 = fold (strip_col pd) (ensure_columns_exist df TEXT_COLS) df
      in case (if ''BOROUGH'' \<in> set (col_names df1) then str_title pd df1 ''BOROUGH''
               else Inr df1) of
           Inl e \<Rightarrow> Inl e
         | Inr df2 \<Rightarrow>
             Inr (fold (replace_col (text_of ''Unspecified''))
                    (ensure_columns_exist df2 FACTOR_COLS) df2))"

subsection \<open>Grouping, ranking and pivoting\<close>

text \<open>
  The order of group keys: numbers by value, strings by code point, time stamps by
  date and time; values of different kinds by kind.
\<close>

fun str_le :: "unicode \<Rightarrow> unicode \<Rightarrow> bool" where
  "str_le [] ys = True"
| "str_le (x # xs) [] = False"
| "str_le (x # xs) (y # ys) = (x < y \<or> (x = y \<and> str_le xs ys))"

definition ts_ord :: "timestamp \<Rightarrow> int" where
  "ts_ord t =
     ((((ts_year t * 13 + int (ts_month t)) * 32 + int (ts_day t)) * 24 + int (ts_hour t)) * 60
        + int (ts_minute t)) * 60 + int (ts_second t)"

definition cell_rank :: "cell \<Rightarrow> nat" where
  "cell_rank v =
     (case v of NA \<Rightarrow> 0 | IntV _ \<Rightarrow> 1 | FloatV _ \<Rightarrow> 1 | StrV _ \<Rightarrow> 2 | TsV _ \<Rightarrow> 3 | TimeV _ _ \<Rightarrow> 4)"

definition num_of :: "cell \<Rightarrow> rat option" where
  "num_of v = (case v of IntV i \<Rightarrow> Some (of_int i) | FloatV q \<Rightarrow> Some q | _ \<Rightarrow> None)"

definition cell_le :: "cell \<Rightarrow> cell \<Rightarrow> bool" where
  "cell_le a b =
     (case (a, b) of
        (StrV s, StrV t) \<Rightarrow> str_le s t
      | (TsV s, TsV t) \<Rightarrow> ts_ord s \<le> ts_ord t
      | (TimeV h m, TimeV h' m') \<Rightarrow> h < h' \<or> (h = h' \<and> m \<le> m')
      | _ \<Rightarrow> (case (num_of a, num_of b) of
                 (Some p, Some q) \<Rightarrow> p \<le> q
               | _ \<Rightarrow> cell_rank a \<le> cell_rank b))"

fun insert_key :: "cell \<Rightarrow> cell list \<Rightarrow> cell list" where
  "insert_key k [] = [k]"
| "insert_key k (x # xs) = (if cell_le k x then k # x # xs else x # insert_key k xs)"

definition sort_keys :: "cell list \<Rightarrow> cell list" where
  "sort_keys ks = foldr insert_key ks []"

text \<open>
  \<^verbatim>\<open>df.groupby(c).size()\<close>: one entry per distinct non-null value of the column, in
  key order, with the number of rows that hold it.
\<close>

definition groupby_size :: "dataframe \<Rightarrow> string \<Rightarrow> (cell \<times> nat) list" where
  "groupby_size df c =
     (let vs = filter (\<lambda>v. v \<noteq> NA) (col_values df c)
      in map (\<lambda>k. (k, count_list vs k)) (sort_keys (remdups vs)))"

text \<open>
  \<^verbatim>\<open>.sort_values(ascending=False)\<close> on a series of counts, with the default
  \<^verbatim>\<open>kind="quicksort"\<close>: pandas reverses the series, takes the positions that
  \<open>argsort\<close> gives for the reversed counts, and reverses the entries at these
  positions. The order of entries with equal counts is the one \<open>argsort\<close> gives.
\<close>

definition sort_values_desc :: "pandas \<Rightarrow> (cell \<times> nat) list \<Rightarrow> (cell \<times> nat) list" where
  "sort_values_desc pd xs =
     (let rs = rev xs in rev (map (\<lambda>i. rs ! i) (argsort pd (map snd rs))))"

text \<open>\<^verbatim>\<open>.idxmax()\<close>: the label of the first maximal count; it raises on an empty series.\<close>

fun idxmax_from :: "(cell \<times> nat) \<Rightarrow> (cell \<times> nat) list \<Rightarrow> cell" where
  "idxmax_from best [] = fst best"
| "idxmax_from best (x # xs) = idxmax_from (if snd best < snd x then x else best) xs"

definition idxmax :: "(cell \<times> nat) list \<Rightarrow> exn + cell" where
  "idxmax xs =
     (case xs of
        [] \<Rightarrow> Inl (ValueError ''attempt to get argmax of an empty sequence'')
      | x # rest \<Rightarrow> Inr (idxmax_from x rest))"

text \<open>
  \<^verbatim>\<open>df.pivot_table(index=i, columns=c, values=v, aggfunc="count")\<close>: the rows whose
  index and column cells are both non-null are grouped by the pair; the cell of a pair
  that occurs is the number of its rows whose value cell is non-null; the cell of a pair
  that does not occur is empty (\<open>None\<close>).
\<close>

type_synonym pivot = "(cell \<times> (cell \<times> nat option) list) list"

definition pivot_table_count :: "dataframe \<Rightarrow> string \<Rightarrow> string \<Rightarrow> string \<Rightarrow> pivot" where
  "pivot_table_count df i c v =
     (let rs = filter (\<lambda>r. get_cell r i \<noteq> NA \<and> get_cell r c \<noteq> NA) (rows df);
          idx = sort_keys (remdups (map (\<lambda>r. get_cell r i) rs));
          cols = sort_keys (remdups (map (\<lambda>r. get_cell r c) rs))
      in map (\<lambda>y. (y, map (\<lambda>b. (b,
                 if \<exists>r \<in> set rs. get_cell r i = y \<and> get_cell r c = b
                 then Some (length (filter (\<lambda>r. get_cell r i = y \<and> get_cell r c = b
                                               \<and> get_cell r v \<noteq> NA) rs))
                 else None)) cols)) idx)"

definition pivot_cell :: "pivot \<Rightarrow> cell \<Rightarrow> cell \<Rightarrow> nat option" where
  "pivot_cell pv y b =
     (case map_of pv y of
        None \<Rightarrow> None
      | Some line \<Rightarrow> (case map_of line b of None \<Rightarrow> None | Some n \<Rightarrow> n))"

subsection \<open>Artifacts and console\<close>

text \<open>
  The output directory is a map from paths to file contents. A table that pandas
  renders from a computed series is kept as that series; a file that pandas computes
  by a numerical routine of its own (\<open>corr\<close>, \<open>describe\<close>, \<open>value_counts\<close>) or by a
  serialiser is kept as the routine's name with the data it is applied to.
\<close>

type_synonym subframe = "(string \<times> dtype option \<times> cell list) list"

datatype artifact =
    CsvFrame dataframe
  | CsvCounts "(cell \<times> nat) list"
  | CsvPivot pivot
  | CsvCorr subframe
  | CsvDescribe subframe
  | CsvValueCountsHead nat "cell list"
  | JsonLines dataframe
  | Parquet dataframe

text \<open>
  The lines the script prints that carry a scalar. The printed renderings of whole
  frames and series repeat what the artifacts hold and are left out.
\<close>

datatype message =
    LoadingCsv string
  | Shape nat nat
  | ColumnList "string list"
  | SampleSaved path
  | ManhattanCount nat
  | AvgInjuries "cell list"
  | MostCrashes cell
  | ReloadRaw string
  | JsonWritten path
  | ParquetWritten path
  | ParquetSkipped string exn
  | Done

record world =
  files :: "path \<Rightarrow> artifact option"
  console :: "message list"

definition write_file :: "world \<Rightarrow> path \<Rightarrow> artifact \<Rightarrow> world" where
  "write_file w p a = w\<lparr>files := (files w)(p \<mapsto> a)\<rparr>"

definition print_msg :: "world \<Rightarrow> message \<Rightarrow> world" where
  "print_msg w m = w\<lparr>console := console w @ [m]\<rparr>"

definition select_cols :: "dataframe \<Rightarrow> string list \<Rightarrow> subframe" where
  "select_cols df cs = map (\<lambda>c. (c, dtype_of df c, col_values df c)) cs"

subsection \<open>Helper functions of the script\<close>

text \<open>
  \<open>safe_to_parquet\<close>: the \<^verbatim>\<open>try\<close> block catches every \<^verbatim>\<open>Exception\<close> of the writer and
  prints the warning with \<^verbatim>\<open>path.name\<close>; nothing is raised.
\<close>

definition safe_to_parquet :: "pandas \<Rightarrow> dataframe \<Rightarrow> path \<Rightarrow> world \<Rightarrow> world" where
  "safe_to_parquet pd df p w =
     (case to_parquet pd df p of
        None \<Rightarrow> print_msg (write_file w p (Parquet df)) (ParquetWritten p)
      | Some e \<Rightarrow> print_msg w (ParquetSkipped (snd p) e))"

definition load_raw :: "pandas \<Rightarrow> string \<Rightarrow> world \<Rightarrow> exn + (dataframe \<times> world)" where
  "load_raw pd csv_path w =
     (let w1 = print_msg w (LoadingCsv csv_path)
      in case read_csv pd csv_path of
           Inl e \<Rightarrow> Inl e
         | Inr df \<Rightarrow>
             Inr (df, print_msg (print_msg w1 (Shape (length (rows df)) (length (columns df))))
                                (ColumnList (col_names df))))"

subsection \<open>Stage 5: \<open>filter_and_group\<close>\<close>

text \<open>
  \<^verbatim>\<open>df["YEAR"] = df["CRASH_DATE"].dt.year\<close>: the \<open>.dt\<close> accessor exists on datetime
  columns only; the year series is int32, or float64 when a date is null. The
  assignment is made on the frame object the caller holds.
\<close>

definition is_ts :: "cell \<Rightarrow> bool" where
  "is_ts v = (case v of TsV _ \<Rightarrow> True | _ \<Rightarrow> False)"

definition dt_year :: "dataframe \<Rightarrow> string \<Rightarrow> string \<Rightarrow> exn + dataframe" where
  "dt_year df src dst =
     (if dtype_of df src = Some D_datetime64
      then Inr (if \<exists>v \<in> set (col_values df src). \<not> is_ts v
                then assign_col df dst D_float64
                       (\<lambda>r. case get_cell r src of TsV t \<Rightarrow> FloatV (of_int (ts_year t))
                             | _ \<Rightarrow> NA)
                else assign_col df dst D_int32
                       (\<lambda>r. case get_cell r src of TsV t \<Rightarrow> IntV (ts_year t) | _ \<Rightarrow> NA))
      else Inl (AttributeError ''Can only use .dt accessor with datetimelike values''))"

text \<open>
  \<^verbatim>\<open>df[cols].corr()\<close> and \<^verbatim>\<open>df[c].mean()\<close> need columns that convert to floats.
\<close>

definition is_numeric_col :: "dataframe \<Rightarrow> string \<Rightarrow> bool" where
  "is_numeric_col df c =
     (case dtype_of df c of
        Some D_int64 \<Rightarrow> True
      | Some D_int32 \<Rightarrow> True
      | Some D_float64 \<Rightarrow> True
      | Some D_Int64 \<Rightarrow> True
      | Some D_object \<Rightarrow> (\<forall>v \<in> set (col_values df c). v = NA \<or> num_of v \<noteq> None)
      | _ \<Rightarrow> False)"

definition corr :: "dataframe \<Rightarrow> string list \<Rightarrow> exn + artifact" where
  "corr df cs =
     (if \<forall>c \<in> set cs. is_numeric_col df c then Inr (CsvCorr (select_cols df cs))
      else Inl (ValueError ''could not convert string to float''))"

definition filter_and_group ::
  "pandas \<Rightarrow> dataframe \<Rightarrow> string \<Rightarrow> world \<Rightarrow> exn + (dataframe \<times> world)" where
  "filter_and_group pd df outdir w =
     (let w1 = (if ''BOROUGH'' \<in> set (col_names df)
                then print_msg w (ManhattanCount
                       (length (filter (\<lambda>r. get_cell r ''BOROUGH'' = Str ''Manhattan'') (rows df))))
                else w)
      in case (if ''CRASH_DATE'' \<in> set (col_names df) then dt_year df ''CRASH_DATE'' ''YEAR''
               else Inr df) of
           Inl e \<Rightarrow> Inl e
         | Inr df1 \<Rightarrow>
            (let w2 = (if ''BOROUGH'' \<in> set (col_names df1)
                       then write_file w1 (outdir, ''collisions_by_borough.csv'')
                              (CsvCounts (sort_values_desc pd (groupby_size df1 ''BOROUGH'')))
                       else w1);
                 w3 = (if ''YEAR'' \<in> set (col_names df1)
                       then write_file w2 (outdir, ''collisions_by_year.csv'')
                              (CsvCounts (groupby_size df1 ''YEAR''))
                       else w2);
                 w4 = (if ''YEAR'' \<in> set (col_names df1) \<and> ''BOROUGH'' \<in> set (col_names df1)
                          \<and> UNIQUE_KEY_COL \<in> set (col_names df1)
                       then write_file w3 (outdir, ''pivot_year_borough.csv'')
                              (CsvPivot (pivot_table_count df1 ''YEAR'' ''BOROUGH'' UNIQUE_KEY_COL))
                       else w3);
                 injuries = ensure_columns_exist df1 INJURY_COLS
             in if injuries \<noteq> []
                then (case corr df1 injuries of
                        Inl e \<Rightarrow> Inl e
                      | Inr a \<Rightarrow> Inr (df1, write_file w4 (outdir, ''injury_correlation.csv'') a))
                else Inr (df1, w4)))"

subsection \<open>Stage 6: \<open>statistical_summaries\<close>\<close>

text \<open>
  \<^verbatim>\<open>df["NUMBER OF PERSONS INJURED"].mean()\<close> is evaluated whenever any injury column
  exists: it raises \<open>KeyError\<close> when that one column is absent.
\<close>

definition mean_col :: "dataframe \<Rightarrow> string \<Rightarrow> exn + message" where
  "mean_col df c =
     (if c \<notin> set (col_names df) then Inl (KeyError c)
      else if is_numeric_col df c then Inr (AvgInjuries (col_values df c))
      else Inl (TypeError ''Could not convert to numeric''))"

definition statistical_summaries :: "dataframe \<Rightarrow> string \<Rightarrow> world \<Rightarrow> exn + world" where
  "statistical_summaries df outdir w =
     (let injuries = ensure_columns_exist df INJURY_COLS
      in case (if injuries \<noteq> []
               then (case mean_col df ''NUMBER OF PERSONS INJURED'' of
                       Inl e \<Rightarrow> Inl e
                     | Inr m \<Rightarrow>
                         Inr (print_msg
                                (write_file w (outdir, ''injury_describe.csv'')
                                   (CsvDescribe (select_cols df injuries))) m))
               else Inr w) of
           Inl e \<Rightarrow> Inl e
         | Inr w1 \<Rightarrow>
            (let w2 = (if ''CONTRIBUTING FACTOR VEHICLE 1'' \<in> set (col_names df)
                       then write_file w1 (outdir, ''top_contributing_factors_v1.csv'')
                              (CsvValueCountsHead 20 (col_values df ''CONTRIBUTING FACTOR VEHICLE 1''))
                       else w1)
             in if ''BOROUGH'' \<in> set (col_names df)
                then (let borough_counts = groupby_size df ''BOROUGH''
                      in if borough_counts \<noteq> []
                         then (case idxmax borough_counts of
                                 Inl e \<Rightarrow> Inl e
                               | Inr most_crashes \<Rightarrow>
                                   Inr (write_file (print_msg w2 (MostCrashes most_crashes))
                                          (outdir, ''collisions_by_borough_full.csv'')
                                          (CsvCounts borough_counts)))
                         else Inr w2)
                else Inr w2))"

subsection \<open>Stage 7: \<open>export_raw_and_clean\<close>\<close>

definition export_raw_and_clean :: "pandas \<Rightarrow> string \<Rightarrow> dataframe \<Rightarrow> string \<Rightarrow> world \<Rightarrow> exn + world" where
  "export_raw_and_clean pd csv_input df_clean outdir w =
     (let raw_out_json = (outdir, ''collisions_raw.json'');
          raw_out_parq = (outdir, ''collisions_raw.parquet'');
          clean_out_json = (outdir, ''collisions_clean.json'');
          clean_out_parq = (outdir, ''collisions_clean.parquet'');
          w1 = print_msg w (ReloadRaw csv_input)
      in case read_csv pd csv_input of
           Inl e \<Rightarrow> Inl e
         | Inr df_raw \<Rightarrow>
            (case to_json pd df_raw raw_out_json of
               Some e \<Rightarrow> Inl e
             | None \<Rightarrow>
                (let w2 = print_msg (write_file w1 raw_out_json (JsonLines df_raw))
                            (JsonWritten raw_out_json);
                     w3 = safe_to_parquet pd df_raw raw_out_parq w2
                 in case to_json pd df_clean clean_out_json of
                      Some e \<Rightarrow> Inl e
                    | None \<Rightarrow>
                       (let w4 = print_msg (write_file w3 clean_out_json (JsonLines df_clean))
                                   (JsonWritten clean_out_json)
                        in Inr (safe_to_parquet pd df_clean clean_out_parq w4)))))"

subsection \<open>The driver\<close>

text \<open>
  \<open>main\<close> with its two arguments parsed. The frame object \<open>df\<close> of the source is one
  object from \<open>clean_text\<close> on: what \<open>filter_and_group\<close> assigns to it is seen by the
  two later stages.
\<close>

definition main :: "pandas \<Rightarrow> string \<Rightarrow> string \<Rightarrow> world \<Rightarrow> exn + world" where
  "main pd input_csv outdir w =
     (case load_raw pd input_csv w of
        Inl e \<Rightarrow> Inl e
      | Inr (df, w1) \<Rightarrow>
         (let sample_path = (outdir, ''sample_head.csv'');
              w2 = print_msg (write_file w1 sample_path (CsvFrame (df\<lparr>rows := take 50 (rows df)\<rparr>)))
                     (SampleSaved sample_path);
              df2 = handle_missing_values df
          in case correct_types pd df2 of
               Inl e \<Rightarrow> Inl e
             | Inr df3 \<Rightarrow>
                (case clean_text pd df3 of
                   Inl e \<Rightarrow> Inl e
                 | Inr df4 \<Rightarrow>
                    (case filter_and_group pd df4 outdir w2 of
                       Inl e \<Rightarrow> Inl e
                     | Inr (df5, w3) \<Rightarrow>
                        (case statistical_summaries df5 outdir w3 of
                           Inl e \<Rightarrow> Inl e
                         | Inr w4 \<Rightarrow>
                            (case export_raw_and_clean pd input_csv df5 outdir w4 of
                               Inl e \<Rightarrow> Inl e
                             | Inr w5 \<Rightarrow> Inr (print_msg w5 Done)))))))"

text \<open>
  \<^verbatim>\<open>sys.exit(main())\<close>: \<open>main\<close> returns \<open>None\<close>, so the process exits with 0; an uncaught
  exception ends it with 1.
\<close>

definition exit_code :: "exn + world \<Rightarrow> int" where
  "exit_code r = (case r of Inl _ \<Rightarrow> 1 | Inr _ \<Rightarrow> 0)"

subsection \<open>A concrete library instance and sample tables\<close>

text \<open>
  An instance of the library interface on which the model is run: dates in the
  dataset's \<open>MM/DD/YYYY\<close> notation, times as \<open>H:MM\<close> or \<open>HH:MM\<close>, numbers in plain decimal
  notation, a source file \<open>crashes.csv\<close> that holds a given frame, a JSON writer that
  succeeds, no Parquet engine installed, \<open>str.title\<close> for the characters of the sample
  tables, and an \<open>argsort\<close> that keeps equal counts in their order.
\<close>

definition is_digit :: "nat \<Rightarrow> bool" where
  "is_digit n = (48 \<le> n \<and> n \<le> 57)"

fun digits_val :: "nat \<Rightarrow> unicode \<Rightarrow> nat option" where
  "digits_val acc [] = Some acc"
| "digits_val acc (c # cs) =
     (if is_digit c then digits_val (acc * 10 + (c - 48)) cs else None)"

definition days_in_month :: "nat \<Rightarrow> nat \<Rightarrow> nat" where
  "days_in_month y m =
     (if m = 2 then (if y mod 4 = 0 \<and> (y mod 100 \<noteq> 0 \<or> y mod 400 = 0) then 29 else 28)
      else if m = 4 \<or> m = 6 \<or> m = 9 \<or> m = 11 then 30 else 31)"

definition parse_mdy :: "cell \<Rightarrow> timestamp option" where
  "parse_mdy v =
     (case v of
        StrV s \<Rightarrow>
          (if length s = 10 \<and> s ! 2 = of_char CHR ''/'' \<and> s ! 5 = of_char CHR ''/''
           then (case (digits_val 0 (take 2 s), digits_val 0 (take 2 (drop 3 s)),
                       digits_val 0 (drop 6 s)) of
                   (Some m, Some d, Some y) \<Rightarrow>
                     (if 1 \<le> m \<and> m \<le> 12 \<and> 1 \<le> d \<and> d \<le> days_in_month y m
                      then Some (Timestamp (int y) m d 0 0 0) else None)
                 | _ \<Rightarrow> None)
           else None)
      | _ \<Rightarrow> None)"

definition parse_hm :: "cell \<Rightarrow> (nat \<times> nat) option" where
  "parse_hm v =
     (case v of
        StrV s \<Rightarrow>
          (let hs = takeWhile (\<lambda>c. c \<noteq> of_char CHR '':'') s;
               ms = drop 1 (dropWhile (\<lambda>c. c \<noteq> of_char CHR '':'') s)
           in if hs \<noteq> [] \<and> length hs \<le> 2 \<and> ms \<noteq> [] \<and> length ms \<le> 2
              then (case (digits_val 0 hs, digits_val 0 ms) of
                      (Some h, Some m) \<Rightarrow> (if h < 24 \<and> m < 60 then Some (h, m) else None)
                    | _ \<Rightarrow> None)
              else None)
      | _ \<Rightarrow> None)"

definition parse_decimal :: "unicode \<Rightarrow> rat option" where
  "parse_decimal s =
     (let neg = (s \<noteq> [] \<and> hd s = of_char CHR ''-'');
          body = (if neg then tl s else s);
          ip = takeWhile (\<lambda>c. c \<noteq> of_char CHR ''.'') body;
          fp = drop 1 (dropWhile (\<lambda>c. c \<noteq> of_char CHR ''.'') body)
      in if ip = [] \<and> fp = [] then None
         else (case (digits_val 0 ip, digits_val 0 fp) of
                 (Some a, Some b) \<Rightarrow>
                   Some ((if neg then - 1 else 1) * (of_nat a + of_nat b / 10 ^ length fp))
               | _ \<Rightarrow> None))"

fun show_nat :: "nat \<Rightarrow> unicode" where
  "show_nat n = (if n < 10 then [48 + n] else show_nat (n div 10) @ [48 + n mod 10])"

text \<open>Only integers are rendered; no other value occurs as text in the sample tables.\<close>

definition show_cell :: "cell \<Rightarrow> unicode" where
  "show_cell v =
     (case v of
        IntV i \<Rightarrow> (if i < 0 then of_char CHR ''-'' # show_nat (nat (- i)) else show_nat (nat i))
      | StrV s \<Rightarrow> s
      | _ \<Rightarrow> [])"

text \<open>
  \<^verbatim>\<open>str.title\<close> on the characters of the sample tables: a character that follows a
  cased character is replaced by its lower-case mapping, any other character by its
  title-case mapping. The mappings are those of the Unicode character database for
  the ASCII letters and for U+01F0 (small j with caron), whose title-case mapping is
  the two characters U+004A, U+030C; the combining caron U+030C and the other ASCII
  characters are uncased and map to themselves. No other character occurs in the
  sample tables.
\<close>

definition sample_cased :: "nat \<Rightarrow> bool" where
  "sample_cased c = ((65 \<le> c \<and> c \<le> 90) \<or> (97 \<le> c \<and> c \<le> 122) \<or> c = 496)"

definition sample_lower :: "nat \<Rightarrow> unicode" where
  "sample_lower c = (if 65 \<le> c \<and> c \<le> 90 then [c + 32] else [c])"

definition sample_title :: "nat \<Rightarrow> unicode" where
  "sample_title c = (if 97 \<le> c \<and> c \<le> 122 then [c - 32] else if c = 496 then [74, 780] else [c])"

fun sample_title_from :: "bool \<Rightarrow> unicode \<Rightarrow> unicode" where
  "sample_title_from prev [] = []"
| "sample_title_from prev (c # cs) =
     (if prev then sample_lower c else sample_title c) @ sample_title_from (sample_cased c) cs"

definition sample_str_title :: "unicode \<Rightarrow> unicode" where
  "sample_str_title s = sample_title_from False s"

text \<open>
  Two sorts that \<open>argsort\<close> may be: both give the positions in ascending order of
  their counts; the first keeps positions with equal counts in ascending order, the
  second puts them in descending order.
\<close>

fun insert_pos :: "bool \<Rightarrow> nat list \<Rightarrow> nat \<Rightarrow> nat list \<Rightarrow> nat list" where
  "insert_pos first vs i [] = [i]"
| "insert_pos first vs i (j # js) =
     (if vs ! i < vs ! j \<or> (first \<and> vs ! i = vs ! j) then i # j # js
      else j # insert_pos first vs i js)"

definition argsort_stable :: "nat list \<Rightarrow> nat list" where
  "argsort_stable vs = fold (insert_pos False vs) [0..<length vs] []"

definition argsort_ties_reversed :: "nat list \<Rightarrow> nat list" where
  "argsort_ties_reversed vs = fold (insert_pos True vs) [0..<length vs] []"

definition no_parquet_env :: "dataframe \<Rightarrow> pandas" where
  "no_parquet_env raw =
     \<lparr>to_datetime = (\<lambda>col. parse_mdy),
      to_time = parse_hm,
      to_numeric = parse_decimal,
      py_str = show_cell,
      py_title = sample_str_title,
      read_csv = (\<lambda>p. if p = ''crashes.csv'' then Inr raw
                       else Inl (OSError ''No such file or directory'')),
      to_json = (\<lambda>df p. None),
      to_parquet = (\<lambda>df p. Some (ImportError ''Unable to find a usable engine'')),
      argsort = argsort_stable\<rparr>"

definition empty_world :: world where
  "empty_world = \<lparr>files = (\<lambda>p. None), console = []\<rparr>"

text \<open>
  The three-row table of the scenario, with the dtypes \<open>read_csv\<close> infers for it: the
  key is an integer column, the coordinates and the injury count (which has a null)
  are float columns, the three text columns are object columns.
\<close>

definition scenario_columns :: "(string \<times> dtype) list" where
  "scenario_columns =
     [(''UNIQUE KEY'', D_int64),
      (''BOROUGH'', D_object),
      (''LATITUDE'', D_float64),
      (''LONGITUDE'', D_float64),
      (''NUMBER OF PERSONS INJURED'', D_float64),
      (''CONTRIBUTING FACTOR VEHICLE 1'', D_object),
      (''CRASH_DATE'', D_object)]"

definition scenario_row1 :: row where
  "scenario_row1 =
     [(''UNIQUE KEY'', IntV 1),
      (''BOROUGH'', Str '' brooklyn ''),
      (''LATITUDE'', FloatV (406 / 10)),
      (''LONGITUDE'', FloatV (- 739 / 10)),
      (''NUMBER OF PERSONS INJURED'', NA),
      (''CONTRIBUTING FACTOR VEHICLE 1'', Str ''Unspecified''),
      (''CRASH_DATE'', Str ''01/02/2021'')]"

definition scenario_row2 :: row where
  "scenario_row2 =
     [(''UNIQUE KEY'', IntV 2),
      (''BOROUGH'', NA),
      (''LATITUDE'', NA),
      (''LONGITUDE'', NA),
      (''NUMBER OF PERSONS INJURED'', FloatV 2),
      (''CONTRIBUTING FACTOR VEHICLE 1'', Str ''Driver Inattention''),
      (''CRASH_DATE'', Str ''01/03/2021'')]"

definition scenario_row3 :: row where
  "scenario_row3 =
     [(''UNIQUE KEY'', IntV 3),
      (''BOROUGH'', Str ''QUEENS''),
      (''LATITUDE'', FloatV (407 / 10)),
      (''LONGITUDE'', FloatV (- 738 / 10)),
      (''NUMBER OF PERSONS INJURED'', FloatV 0),
      (''CONTRIBUTING FACTOR VEHICLE 1'', NA),
      (''CRASH_DATE'', Str ''01/02/2021'')]"

definition scenario :: dataframe where
  "scenario = \<lparr>columns = scenario_columns, rows = [scenario_row1, scenario_row2, scenario_row3]\<rparr>"

text \<open>The scenario table after \<open>correct_types\<close>, after \<open>clean_text\<close> and after \<open>filter_and_group\<close>.\<close>

definition scenario_typed :: dataframe where
  "scenario_typed =
     \<lparr>columns =
        [(''UNIQUE KEY'', D_int64), (''BOROUGH'', D_category),
         (''LATITUDE'', D_float64), (''LONGITUDE'', D_float64),
         (''NUMBER OF PERSONS INJURED'', D_Int64),
         (''CONTRIBUTING FACTOR VEHICLE 1'', D_object),
         (''CRASH_DATE'', D_datetime64)],
      rows =
        [[(''UNIQUE KEY'', IntV 1), (''BOROUGH'', Str '' brooklyn ''),
          (''LATITUDE'', FloatV (406 / 10)), (''LONGITUDE'', FloatV (- 739 / 10)),
          (''NUMBER OF PERSONS INJURED'', IntV 0),
          (''CONTRIBUTING FACTOR VEHICLE 1'', Str ''Unspecified''),
          (''CRASH_DATE'', TsV (Timestamp 2021 1 2 0 0 0))],
         [(''UNIQUE KEY'', IntV 3), (''BOROUGH'', Str ''QUEENS''),
          (''LATITUDE'', FloatV (407 / 10)), (''LONGITUDE'', FloatV (- 738 / 10)),
          (''NUMBER OF PERSONS INJURED'', IntV 0),
          (''CONTRIBUTING FACTOR VEHICLE 1'', Str ''Unknown''),
          (''CRASH_DATE'', TsV (Timestamp 2021 1 2 0 0 0))]]\<rparr>"

definition scenario_clean :: dataframe where
  "scenario_clean =
     \<lparr>columns =
        [(''UNIQUE KEY'', D_int64), (''BOROUGH'', D_string),
         (''LATITUDE'', D_float64), (''LONGITUDE'', D_float64),
         (''NUMBER OF PERSONS INJURED'', D_Int64),
         (''CONTRIBUTING FACTOR VEHICLE 1'', D_string),
         (''CRASH_DATE'', D_datetime64)],
      rows =
        [[(''UNIQUE KEY'', IntV 1), (''BOROUGH'', Str ''Brooklyn''),
          (''LATITUDE'', FloatV (406 / 10)), (''LONGITUDE'', FloatV (- 739 / 10)),
          (''NUMBER OF PERSONS INJURED'', IntV 0),
          (''CONTRIBUTING FACTOR VEHICLE 1'', NA),
          (''CRASH_DATE'', TsV (Timestamp 2021 1 2 0 0 0))],
         [(''UNIQUE KEY'', IntV 3), (''BOROUGH'', Str ''Queens''),
          (''LATITUDE'', FloatV (407 / 10)), (''LONGITUDE'', FloatV (- 738 / 10)),
          (''NUMBER OF PERSONS INJURED'', IntV 0),
          (''CONTRIBUTING FACTOR VEHICLE 1'', Str ''Unknown''),
          (''CRASH_DATE'', TsV (Timestamp 2021 1 2 0 0 0))]]\<rparr>"

definition scenario_year :: dataframe where
  "scenario_year =
     \<lparr>columns = columns scenario_clean @ [(''YEAR'', D_int32)],
      rows = map (\<lambda>r. r @ [(''YEAR'', IntV 2021)]) (rows scenario_clean)\<rparr>"

text \<open>
  A one-row table whose injury count is the fractional number 1.5, as \<open>read_csv\<close> gives
  it for a file that holds \<open>1.5\<close> in that column.
\<close>

definition fractional_table :: dataframe where
  "fractional_table =
     \<lparr>columns = [(''LATITUDE'', D_float64), (''LONGITUDE'', D_float64),
                 (''NUMBER OF PERSONS INJURED'', D_float64)],
      rows = [[(''LATITUDE'', FloatV (406 / 10)), (''LONGITUDE'', FloatV (- 739 / 10)),
               (''NUMBER OF PERSONS INJURED'', FloatV (3 / 2))]]\<rparr>"

text \<open>
  A table with one contributing-factor column: the sentinel itself, the sentinel in
  lower case, a text that contains the sentinel, and the sentinel between blanks.
\<close>

definition factor_table :: dataframe where
  "factor_table =
     \<lparr>columns = [(''CONTRIBUTING FACTOR VEHICLE 2'', D_object)],
      rows = [[(''CONTRIBUTING FACTOR VEHICLE 2'', Str ''Unspecified'')],
              [(''CONTRIBUTING FACTOR VEHICLE 2'', Str ''unspecified'')],
              [(''CONTRIBUTING FACTOR VEHICLE 2'', Str ''Unspecified vehicle'')],
              [(''CONTRIBUTING FACTOR VEHICLE 2'', Str '' Unspecified '')]]\<rparr>"

definition factor_table_clean :: dataframe where
  "factor_table_clean =
     \<lparr>columns = [(''CONTRIBUTING FACTOR VEHICLE 2'', D_string)],
      rows = [[(''CONTRIBUTING FACTOR VEHICLE 2'', NA)],
              [(''CONTRIBUTING FACTOR VEHICLE 2'', Str ''unspecified'')],
              [(''CONTRIBUTING FACTOR VEHICLE 2'', Str ''Unspecified vehicle'')],
              [(''CONTRIBUTING FACTOR VEHICLE 2'', NA)]]\<rparr>"

text \<open>
  A source table in which two crash records carry the same key, and the number of
  distinct identifier values among the rows of a year and a borough, in the words of
  the specification.
\<close>

definition duplicate_key_raw :: dataframe where
  "duplicate_key_raw =
     \<lparr>columns = [(''UNIQUE KEY'', D_int64), (''BOROUGH'', D_object), (''CRASH_DATE'', D_object)],
      rows = [[(''UNIQUE KEY'', IntV 7), (''BOROUGH'', Str ''QUEENS''),
               (''CRASH_DATE'', Str ''01/02/2021'')],
              [(''UNIQUE KEY'', IntV 7), (''BOROUGH'', Str ''QUEENS''),
               (''CRASH_DATE'', Str ''01/02/2021'')]]\<rparr>"

definition distinct_ids :: "dataframe \<Rightarrow> cell \<Rightarrow> cell \<Rightarrow> nat" where
  "distinct_ids df y b =
     length (remdups (filter (\<lambda>k. k \<noteq> NA)
       (map (\<lambda>r. get_cell r UNIQUE_KEY_COL)
          (filter (\<lambda>r. get_cell r ''YEAR'' = y \<and> get_cell r ''BOROUGH'' = b) (rows df)))))"

text \<open>
  A table whose one borough is the text \<open>U+01F0 a\<close> (small j with caron, then a), and
  what the first and the second run of \<open>clean_text\<close> make of it.
\<close>

definition caron_table :: dataframe where
  "caron_table = \<lparr>columns = [(''BOROUGH'', D_object)], rows = [[(''BOROUGH'', StrV [496, 97])]]\<rparr>"

definition caron_once :: dataframe where
  "caron_once = \<lparr>columns = [(''BOROUGH'', D_string)], rows = [[(''BOROUGH'', StrV [74, 780, 97])]]\<rparr>"

definition caron_twice :: dataframe where
  "caron_twice = \<lparr>columns = [(''BOROUGH'', D_string)], rows = [[(''BOROUGH'', StrV [74, 780, 65])]]\<rparr>"

text \<open>
  A cleaned table in which two boroughs have the same number of rows, one in which a
  borough has more rows than the other, and the library whose \<open>argsort\<close> puts equal
  counts in descending order of position.
\<close>

definition tie_table :: dataframe where
  "tie_table =
     \<lparr>columns = [(''BOROUGH'', D_string)],
      rows = [[(''BOROUGH'', Str ''Manhattan'')], [(''BOROUGH'', Str ''Queens'')],
              [(''BOROUGH'', Str ''Queens'')], [(''BOROUGH'', Str ''Manhattan'')]]\<rparr>"

definition majority_table :: dataframe where
  "majority_table =
     \<lparr>columns = [(''BOROUGH'', D_string)],
      rows = [[(''BOROUGH'', Str ''Manhattan'')], [(''BOROUGH'', Str ''Queens'')],
              [(''BOROUGH'', Str ''Queens'')]]\<rparr>"

definition ties_reversed_env :: pandas where
  "ties_reversed_env = (no_parquet_env tie_table)\<lparr>argsort := argsort_ties_reversed\<rparr>"

subsection \<open>Auxiliary notions for the proofs\<close>

text \<open>
  What \<open>handle_missing_values\<close> amounts to: a row is kept when its present location
  cells are non-null, and a cell of a kept row is filled by the role of its column.
\<close>

definition hmv_keep :: "dataframe \<Rightarrow> row \<Rightarrow> bool" where
  "hmv_keep df r = (\<forall>c \<in> set LOCATION_COLS. has_col df c \<longrightarrow> get_cell r c \<noteq> NA)"

definition hmv_cell :: "dataframe \<Rightarrow> string \<Rightarrow> cell \<Rightarrow> cell" where
  "hmv_cell df c v =
     (if c = ''CONTRIBUTING FACTOR VEHICLE 1'' \<and> has_col df c \<and> v = NA then Str ''Unknown''
      else if c \<in> set INJURY_COLS \<and> has_col df c \<and> v = NA then zero_of (dtype_of df c)
      else v)"

text \<open>
  The three steps of \<open>clean_text\<close>, and the condition under which the first step
  rewrites a column.
\<close>

definition strippable :: "dataframe \<Rightarrow> string \<Rightarrow> bool" where
  "strippable df c = (is_string_dtype df c \<or> dtype_of df c = Some D_category)"

definition strip_step :: "pandas \<Rightarrow> dataframe \<Rightarrow> dataframe" where
  "strip_step pd df = fold (strip_col pd) (ensure_columns_exist df TEXT_COLS) df"

definition title_step :: "pandas \<Rightarrow> dataframe \<Rightarrow> exn + dataframe" where
  "title_step pd df =
     (if ''BOROUGH'' \<in> set (col_names df) then str_title pd df ''BOROUGH'' else Inr df)"

definition replace_step :: "dataframe \<Rightarrow> dataframe" where
  "replace_step df =
     fold (replace_col (text_of ''Unspecified'')) (ensure_columns_exist df FACTOR_COLS) df"

text \<open>
  Two facts about the representation of a frame: every row has an entry for a column,
  and every entry of the column list for a name carries one dtype.
\<close>

definition has_key :: "dataframe \<Rightarrow> string \<Rightarrow> bool" where
  "has_key df c = (\<forall>r \<in> set (rows df). c \<in> fst ` set r)"

definition uniform :: "(string \<times> dtype) list \<Rightarrow> string \<Rightarrow> dtype \<Rightarrow> bool" where
  "uniform cs c dt = (c \<in> fst ` set cs \<and> (\<forall>(n, d) \<in> set cs. n = c \<longrightarrow> d = dt))"

text \<open>What \<open>clean_text\<close> makes of one cell of column \<open>c\<close> of the frame \<open>df\<close>.\<close>

definition clean_cell :: "pandas \<Rightarrow> dataframe \<Rightarrow> string \<Rightarrow> cell \<Rightarrow> cell" where
  "clean_cell pd df c v =
     (let v1 = (if c \<in> set TEXT_COLS \<and> has_col df c \<and> strippable df c then strip_cell pd v else v);
          v2 = (if c = ''BOROUGH'' \<and> has_col df c then title_cell pd v1 else v1)
      in if c \<in> set FACTOR_COLS \<and> has_col df c then replace_cell (text_of ''Unspecified'') v2
         else v2)"

text \<open>A text without leading or trailing white space.\<close>

definition trimmed :: "unicode \<Rightarrow> bool" where
  "trimmed s = (s = [] \<or> (\<not> is_space (hd s) \<and> \<not> is_space (last s)))"

text \<open>
  Stages 5 and 6 as lists of writes: what \<open>filter_and_group\<close> and
  \<open>statistical_summaries\<close> write and print, and when they raise, apart from the world
  they start in.
\<close>

definition apply_updates :: "(path \<times> artifact) list \<Rightarrow> message list \<Rightarrow> world \<Rightarrow> world" where
  "apply_updates us ms w =
     w\<lparr>files := fold (\<lambda>(p, a) f. f(p \<mapsto> a)) us (files w), console := console w @ ms\<rparr>"

definition fg_table :: "dataframe \<Rightarrow> exn + dataframe" where
  "fg_table df =
     (if ''CRASH_DATE'' \<in> set (col_names df) then dt_year df ''CRASH_DATE'' ''YEAR'' else Inr df)"

definition fg_updates :: "pandas \<Rightarrow> dataframe \<Rightarrow> string \<Rightarrow> (path \<times> artifact) list" where
  "fg_updates pd df1 outdir =
     (if ''BOROUGH'' \<in> set (col_names df1)
      then [((outdir, ''collisions_by_borough.csv''),
             CsvCounts (sort_values_desc pd (groupby_size df1 ''BOROUGH'')))] else [])
     @ (if ''YEAR'' \<in> set (col_names df1)
        then [((outdir, ''collisions_by_year.csv''), CsvCounts (groupby_size df1 ''YEAR''))] else [])
     @ (if ''YEAR'' \<in> set (col_names df1) \<and> ''BOROUGH'' \<in> set (col_names df1)
           \<and> UNIQUE_KEY_COL \<in> set (col_names df1)
        then [((outdir, ''pivot_year_borough.csv''),
               CsvPivot (pivot_table_count df1 ''YEAR'' ''BOROUGH'' UNIQUE_KEY_COL))] else [])
     @ (if ensure_columns_exist df1 INJURY_COLS \<noteq> []
        then [((outdir, ''injury_correlation.csv''),
               CsvCorr (select_cols df1 (ensure_columns_exist df1 INJURY_COLS)))] else [])"

definition fg_msgs :: "dataframe \<Rightarrow> message list" where
  "fg_msgs df =
     (if ''BOROUGH'' \<in> set (col_names df)
      then [ManhattanCount (length (filter (\<lambda>r. get_cell r ''BOROUGH'' = Str ''Manhattan'') (rows df)))]
      else [])"

definition ss_error :: "dataframe \<Rightarrow> exn option" where
  "ss_error df =
     (if ensure_columns_exist df INJURY_COLS \<noteq> []
      then (if ''NUMBER OF PERSONS INJURED'' \<notin> set (col_names df)
            then Some (KeyError ''NUMBER OF PERSONS INJURED'')
            else if is_numeric_col df ''NUMBER OF PERSONS INJURED'' then None
            else Some (TypeError ''Could not convert to numeric''))
      else None)"

definition ss_updates :: "dataframe \<Rightarrow> string \<Rightarrow> (path \<times> artifact) list" where
  "ss_updates df outdir =
     (if ensure_columns_exist df INJURY_COLS \<noteq> []
      then [((outdir, ''injury_describe.csv''),
             CsvDescribe (select_cols df (ensure_columns_exist df INJURY_COLS)))] else [])
     @ (if ''CONTRIBUTING FACTOR VEHICLE 1'' \<in> set (col_names df)
        then [((outdir, ''top_contributing_factors_v1.csv''),
               CsvValueCountsHead 20 (col_values df ''CONTRIBUTING FACTOR VEHICLE 1''))] else [])
     @ (if ''BOROUGH'' \<in> set (col_names df) \<and> groupby_size df ''BOROUGH'' \<noteq> []
        then [((outdir, ''collisions_by_borough_full.csv''),
               CsvCounts (groupby_size df ''BOROUGH''))] else [])"

definition ss_msgs :: "dataframe \<Rightarrow> message list" where
  "ss_msgs df =
     (if ensure_columns_exist df INJURY_COLS \<noteq> []
      then [AvgInjuries (col_values df ''NUMBER OF PERSONS INJURED'')] else [])
     @ (if ''BOROUGH'' \<in> set (col_names df) \<and> groupby_size df ''BOROUGH'' \<noteq> []
        then [MostCrashes (idxmax_from (hd (groupby_size df ''BOROUGH''))
                             (tl (groupby_size df ''BOROUGH'')))] else [])"

text \<open>The boroughs that a list of printed lines reports as having most crashes.\<close>

definition most_crashes_of :: "message list \<Rightarrow> cell list" where
  "most_crashes_of ms = concat (map (\<lambda>m. case m of MostCrashes k \<Rightarrow> [k] | _ \<Rightarrow> []) ms)"

text \<open>
  What NumPy promises of \<open>argsort\<close> on a list: the result holds every position of the
  list once, and the counts at these positions ascend.
\<close>

definition argsort_ok :: "pandas \<Rightarrow> nat list \<Rightarrow> bool" where
  "argsort_ok pd vs =
     (distinct (argsort pd vs) \<and> set (argsort pd vs) = {0..<length vs}
      \<and> sorted (map (\<lambda>i. vs ! i) (argsort pd vs)))"

text \<open>
  Stages 5 and 6 in the order of \<open>main\<close>, and in the other order the specification
  allows. In both, the two stages get the frame object that \<open>clean_text\<close> returned.
  \<open>completed_output\<close> is what a completed pair of stages leaves: the table the
  exporter gets and the files; it is \<open>None\<close> when a stage raised.
\<close>

definition agg_then_stats ::
  "pandas \<Rightarrow> dataframe \<Rightarrow> string \<Rightarrow> world \<Rightarrow> exn + (dataframe \<times> world)" where
  "agg_then_stats pd df outdir w =
     (case filter_and_group pd df outdir w of
        Inl e \<Rightarrow> Inl e
      | Inr (df1, w1) \<Rightarrow>
          (case statistical_summaries df1 outdir w1 of
             Inl e \<Rightarrow> Inl e
           | Inr w2 \<Rightarrow> Inr (df1, w2)))"

definition stats_then_agg ::
  "pandas \<Rightarrow> dataframe \<Rightarrow> string \<Rightarrow> world \<Rightarrow> exn + (dataframe \<times> world)" where
  "stats_then_agg pd df outdir w =
     (case statistical_summaries df outdir w of
        Inl e \<Rightarrow> Inl e
      | Inr w1 \<Rightarrow> filter_and_group pd df outdir w1)"

definition completed_output ::
  "exn + (dataframe \<times> world) \<Rightarrow> (dataframe \<times> (path \<Rightarrow> artifact option)) option" where
  "completed_output r = (case r of Inl _ \<Rightarrow> None | Inr (d, w) \<Rightarrow> Some (d, files w))"

text \<open>The year cell that belongs to a date cell: the year as an integer or as a float.\<close>

definition is_year_of :: "cell \<Rightarrow> cell \<Rightarrow> bool" where
  "is_year_of v y =
     (case v of TsV t \<Rightarrow> y = IntV (ts_year t) \<or> y = FloatV (of_int (ts_year t)) | _ \<Rightarrow> y = NA)"

section \<open>Properties\<close>

subsection \<open>Text literals\<close>

lemma text_of_eq_iff [simp]: "text_of a = text_of b \<longleftrightarrow> a = b"
proof -
  have "inj (of_char :: char \<Rightarrow> nat)" by (rule injI) simp
  then have "inj (map (of_char :: char \<Rightarrow> nat))" by (rule iffD2 [OF inj_map])
  then show ?thesis unfolding text_of_def by (rule inj_eq)
qed


subsection \<open>Rows and column assignment\<close>

lemma get_set_cell: "get_cell (set_cell r c v) c' = (if c' = c then v else get_cell r c')"
  by (induction r c v rule: set_cell.induct) (auto simp: get_cell_def)

lemma keys_set_cell: "fst ` set (set_cell r c v) = insert c (fst ` set r)"
  by (induction r c v rule: set_cell.induct) auto

lemma set_cell_triv: "c \<in> fst ` set r \<Longrightarrow> set_cell r c (get_cell r c) = r"
  by (induction r c "get_cell r c" rule: set_cell.induct) (auto simp: get_cell_def)

lemma map_fst_set_dtype:
  "map fst (set_dtype cs c dt) = (if c \<in> set (map fst cs) then map fst cs else map fst cs @ [c])"
  by (simp add: set_dtype_def) (auto split: prod.splits)

lemma map_of_retag:
  "map_of (map (\<lambda>(n, d). if n = c then (n, dt) else (n, d)) cs) c' =
     (if c' = c then (if c \<in> fst ` set cs then Some dt else None) else map_of cs c')"
  by (induction cs) (auto split: prod.splits simp: rev_image_eqI)

lemma map_of_set_dtype: "map_of (set_dtype cs c dt) c' = (if c' = c then Some dt else map_of cs c')"
proof (cases "c \<in> set (map fst cs)")
  case True
  then show ?thesis by (simp add: set_dtype_def map_of_retag)
next
  case False
  then have "map_of cs c = None" by (simp add: map_of_eq_None_iff)
  with False show ?thesis by (auto simp: set_dtype_def map_add_def split: option.splits)
qed

lemma col_names_assign_col:
  "col_names (assign_col df c dt f) =
     (if c \<in> set (col_names df) then col_names df else col_names df @ [c])"
  by (simp add: col_names_def assign_col_def map_fst_set_dtype)

lemma has_col_assign_col: "has_col (assign_col df c dt f) c' = (c' = c \<or> has_col df c')"
  by (auto simp: has_col_def col_names_assign_col)

lemma dtype_of_assign_col:
  "dtype_of (assign_col df c dt f) c' = (if c' = c then Some dt else dtype_of df c')"
  by (simp add: dtype_of_def assign_col_def map_of_set_dtype)

lemma col_values_assign_col:
  "col_values (assign_col df c dt f) c' = (if c' = c then map f (rows df) else col_values df c')"
  by (simp add: col_values_def assign_col_def get_set_cell o_def)

lemma col_values_assign_col_cell:
  "col_values (assign_col df c dt (\<lambda>r. g (get_cell r c))) c' =
     (if c' = c then map g (col_values df c) else col_values df c')"
  unfolding col_values_assign_col by (simp add: col_values_def o_def)

lemma length_rows_assign_col: "length (rows (assign_col df c dt f)) = length (rows df)"
  by (simp add: assign_col_def)

lemma set_ensure_columns_exist:
  "set (ensure_columns_exist df cs) = {c \<in> set cs. has_col df c}"
  by (auto simp: ensure_columns_exist_def has_col_def)

lemma get_cell_in_col_values: "r \<in> set (rows df) \<Longrightarrow> get_cell r c \<in> set (col_values df c)"
  by (simp add: col_values_def)

subsection \<open>Stage 2: missing values\<close>

lemma get_fold_fill:
  "get_cell (fold (\<lambda>c r. set_cell r c (if get_cell r c = NA then z c else get_cell r c)) cs r) c' =
     (if c' \<in> set cs \<and> get_cell r c' = NA then z c' else get_cell r c')"
  if "\<And>c. z c \<noteq> NA"
  using that by (induction cs arbitrary: r) (auto simp: get_set_cell)

lemma zero_of_not_NA: "zero_of d \<noteq> NA"
  by (simp add: zero_of_def)

lemma col_values_fillna_zero:
  "col_values (fillna_zero df cs) c =
     map (\<lambda>v. if c \<in> set cs \<and> v = NA then zero_of (dtype_of df c) else v) (col_values df c)"
  by (simp add: col_values_def fillna_zero_def o_def get_fold_fill zero_of_not_NA)

lemma columns_fillna_zero: "columns (fillna_zero df cs) = columns df"
  by (simp add: fillna_zero_def)

lemma F1_not_injury: "''CONTRIBUTING FACTOR VEHICLE 1'' \<notin> set INJURY_COLS"
  by (simp add: INJURY_COLS_def)

lemma hmv_step1:
  "rows (if ensure_columns_exist df LOCATION_COLS \<noteq> []
         then dropna df (ensure_columns_exist df LOCATION_COLS) else df)
   = filter (hmv_keep df) (rows df)"
proof (cases "ensure_columns_exist df LOCATION_COLS = []")
  case True
  then have "set (ensure_columns_exist df LOCATION_COLS) = {}" by simp
  then have "\<And>r. hmv_keep df r" unfolding hmv_keep_def set_ensure_columns_exist by blast
  with True show ?thesis by simp
next
  case False
  have "\<And>r. (\<forall>c\<in>set (ensure_columns_exist df LOCATION_COLS). get_cell r c \<noteq> NA) = hmv_keep df r"
    unfolding hmv_keep_def set_ensure_columns_exist by blast
  with False show ?thesis by (simp add: dropna_def)
qed

lemma hmv_step1_cols:
  "columns (if ensure_columns_exist df LOCATION_COLS \<noteq> []
         then dropna df (ensure_columns_exist df LOCATION_COLS) else df) = columns df"
  by (simp add: dropna_def)

lemma fillna_zero_nil: "fillna_zero df [] = df"
  by (simp add: fillna_zero_def)

lemma hmv_step2:
  "(if ensure_columns_exist d INJURY_COLS \<noteq> []
    then fillna_zero d (ensure_columns_exist d INJURY_COLS) else d)
   = fillna_zero d (ensure_columns_exist d INJURY_COLS)"
  by (simp add: fillna_zero_nil)

lemma handle_missing_values_unfold:
  "handle_missing_values df =
     (let d1 = (if ensure_columns_exist df LOCATION_COLS \<noteq> []
                then dropna df (ensure_columns_exist df LOCATION_COLS) else df);
          d2 = fillna_zero d1 (ensure_columns_exist d1 INJURY_COLS)
      in if ''CONTRIBUTING FACTOR VEHICLE 1'' \<in> set (col_names d2)
         then fillna_str d2 ''CONTRIBUTING FACTOR VEHICLE 1'' (text_of ''Unknown'') else d2)"
  unfolding handle_missing_values_def Let_def hmv_step2 ..

lemma col_values_fillna_str:
  "col_values (fillna_str df c s) c' =
     (if c' = c then map (\<lambda>v. if v = NA then StrV s else v) (col_values df c)
      else col_values df c')"
  unfolding fillna_str_def Let_def
  by (rule col_values_assign_col_cell[where g="\<lambda>v. if v = NA then StrV s else v"])

lemma col_names_fillna_str: "has_col df c \<Longrightarrow> col_names (fillna_str df c s) = col_names df"
  by (simp add: fillna_str_def Let_def col_names_assign_col has_col_def)

lemma col_values_handle_missing_values:
  "col_values (handle_missing_values df) c =
     map (\<lambda>r. hmv_cell df c (get_cell r c)) (filter (hmv_keep df) (rows df))"
proof -
  define d1 where "d1 = (if ensure_columns_exist df LOCATION_COLS \<noteq> []
         then dropna df (ensure_columns_exist df LOCATION_COLS) else df)"
  define d2 where "d2 = fillna_zero d1 (ensure_columns_exist d1 INJURY_COLS)"
  have c1: "columns d1 = columns df" unfolding d1_def by (rule hmv_step1_cols)
  have r1: "rows d1 = filter (hmv_keep df) (rows df)" unfolding d1_def by (rule hmv_step1)
  have h1: "\<And>c. has_col d1 c = has_col df c" by (simp add: has_col_def col_names_def c1)
  have t1: "\<And>c. dtype_of d1 c = dtype_of df c" by (simp add: dtype_of_def c1)
  have c2: "col_names d2 = col_names df"
    unfolding d2_def by (simp add: col_names_def columns_fillna_zero c1)
  have v2: "col_values d2 c = map (\<lambda>r. (if c \<in> set INJURY_COLS \<and> has_col df c \<and> get_cell r c = NA
              then zero_of (dtype_of df c) else get_cell r c)) (rows d1)" for c
    unfolding d2_def col_values_fillna_zero set_ensure_columns_exist
    by (simp add: col_values_def o_def h1 t1)
  have hmv: "handle_missing_values df =
      (if ''CONTRIBUTING FACTOR VEHICLE 1'' \<in> set (col_names d2)
       then fillna_str d2 ''CONTRIBUTING FACTOR VEHICLE 1'' (text_of ''Unknown'') else d2)"
    unfolding handle_missing_values_unfold Let_def d2_def d1_def ..
  show ?thesis
  proof (cases "has_col df ''CONTRIBUTING FACTOR VEHICLE 1''")
    case True
    then have "handle_missing_values df = fillna_str d2 ''CONTRIBUTING FACTOR VEHICLE 1'' (text_of ''Unknown'')"
      by (simp add: hmv c2 has_col_def)
    then show ?thesis
      using True F1_not_injury
      by (auto simp: col_values_fillna_str v2 r1 hmv_cell_def)
  next
    case False
    then have "handle_missing_values df = d2" by (simp add: hmv c2 has_col_def)
    then show ?thesis using False by (auto simp: v2 r1 hmv_cell_def)
  qed
qed

lemma rows_handle_missing_values_length:
  "length (rows (handle_missing_values df)) = length (filter (hmv_keep df) (rows df))"
  using arg_cong[OF col_values_handle_missing_values[of df "[]"], of length]
  by (simp add: col_values_def)

lemma col_names_handle_missing_values: "col_names (handle_missing_values df) = col_names df"
proof -
  define d1 where "d1 = (if ensure_columns_exist df LOCATION_COLS \<noteq> []
         then dropna df (ensure_columns_exist df LOCATION_COLS) else df)"
  define d2 where "d2 = fillna_zero d1 (ensure_columns_exist d1 INJURY_COLS)"
  have c1: "columns d1 = columns df" unfolding d1_def by (rule hmv_step1_cols)
  have c2: "col_names d2 = col_names df"
    unfolding d2_def by (simp add: col_names_def columns_fillna_zero c1)
  have hmv: "handle_missing_values df =
      (if ''CONTRIBUTING FACTOR VEHICLE 1'' \<in> set (col_names d2)
       then fillna_str d2 ''CONTRIBUTING FACTOR VEHICLE 1'' (text_of ''Unknown'') else d2)"
    unfolding handle_missing_values_unfold Let_def d2_def d1_def ..
  show ?thesis
    by (simp add: hmv c2 col_names_fillna_str has_col_def)
qed

lemma loc_not_F1:
  "c \<in> set LOCATION_COLS \<union> set INJURY_COLS \<Longrightarrow> c \<noteq> ''CONTRIBUTING FACTOR VEHICLE 1''"
  by (auto simp: LOCATION_COLS_def INJURY_COLS_def)

lemma loc_not_injury: "c \<in> set LOCATION_COLS \<Longrightarrow> c \<notin> set INJURY_COLS"
  by (auto simp: LOCATION_COLS_def INJURY_COLS_def)

text \<open>
  Claim C7. For a geolocation or injury-metric column \<open>c\<close> of the table, the column
  that \<open>handle_missing_values\<close> returns is determined: its rows are the input rows
  that have no null geolocation cell, in the input order, and the cell of each such
  row is the input cell, but zero (the float in a float column, the integer elsewhere)
  where the input cell of an injury-metric column was null. So every row returned has a
  non-null cell in \<open>c\<close>.
\<close>

theorem handle_missing_values_non_null:
  assumes "has_col df c" and "c \<in> set LOCATION_COLS \<union> set INJURY_COLS"
  shows "col_values (handle_missing_values df) c =
           map (\<lambda>r. if c \<in> set INJURY_COLS \<and> get_cell r c = NA
                     then (if dtype_of df c = Some D_float64 then FloatV 0 else IntV 0)
                     else get_cell r c)
               (filter (\<lambda>r. \<forall>l \<in> set LOCATION_COLS. has_col df l \<longrightarrow> get_cell r l \<noteq> NA)
                  (rows df))
       \<and> (\<forall>r' \<in> set (rows (handle_missing_values df)). get_cell r' c \<noteq> NA)"
proof
  have ne: "c \<noteq> ''CONTRIBUTING FACTOR VEHICLE 1''" using assms(2) by (rule loc_not_F1)
  have k: "hmv_keep df = (\<lambda>r. \<forall>l \<in> set LOCATION_COLS. has_col df l \<longrightarrow> get_cell r l \<noteq> NA)"
    by (simp add: fun_eq_iff hmv_keep_def)
  have h: "hmv_cell df c (get_cell r c) =
             (if c \<in> set INJURY_COLS \<and> get_cell r c = NA
              then (if dtype_of df c = Some D_float64 then FloatV 0 else IntV 0)
              else get_cell r c)" for r
    using ne assms(1) by (simp add: hmv_cell_def zero_of_def)
  show eq: "col_values (handle_missing_values df) c =
           map (\<lambda>r. if c \<in> set INJURY_COLS \<and> get_cell r c = NA
                     then (if dtype_of df c = Some D_float64 then FloatV 0 else IntV 0)
                     else get_cell r c)
               (filter (\<lambda>r. \<forall>l \<in> set LOCATION_COLS. has_col df l \<longrightarrow> get_cell r l \<noteq> NA)
                  (rows df))"
    unfolding col_values_handle_missing_values k h ..
  show "\<forall>r' \<in> set (rows (handle_missing_values df)). get_cell r' c \<noteq> NA"
  proof
    fix r' assume "r' \<in> set (rows (handle_missing_values df))"
    then have "get_cell r' c \<in> set (col_values (handle_missing_values df) c)"
      by (rule get_cell_in_col_values)
    then have "\<exists>r. (\<forall>l \<in> set LOCATION_COLS. has_col df l \<longrightarrow> get_cell r l \<noteq> NA)
        \<and> get_cell r' c = (if c \<in> set INJURY_COLS \<and> get_cell r c = NA
                     then (if dtype_of df c = Some D_float64 then FloatV 0 else IntV 0)
                     else get_cell r c)"
      unfolding eq set_map set_filter by blast
    then obtain r where r: "\<forall>l \<in> set LOCATION_COLS. has_col df l \<longrightarrow> get_cell r l \<noteq> NA"
      and v: "get_cell r' c = (if c \<in> set INJURY_COLS \<and> get_cell r c = NA
                     then (if dtype_of df c = Some D_float64 then FloatV 0 else IntV 0)
                     else get_cell r c)"
      by blast
    show "get_cell r' c \<noteq> NA"
    proof (cases "c \<in> set LOCATION_COLS")
      case True
      then have "get_cell r c \<noteq> NA" using r assms(1) by blast
      then show ?thesis using v by simp
    next
      case False
      then have "c \<in> set INJURY_COLS" using assms(2) by simp
      then show ?thesis using v by auto
    qed
  qed
qed

theorem handle_missing_values_non_null_witness:
  "has_col scenario ''NUMBER OF PERSONS INJURED''
   \<and> ''NUMBER OF PERSONS INJURED'' \<in> set LOCATION_COLS \<union> set INJURY_COLS
   \<and> col_values scenario ''NUMBER OF PERSONS INJURED'' = [NA, FloatV 2, FloatV 0]
   \<and> col_values scenario ''LATITUDE'' = [FloatV (406 / 10), NA, FloatV (407 / 10)]
   \<and> col_values (handle_missing_values scenario) ''NUMBER OF PERSONS INJURED'' = [FloatV 0, FloatV 0]
   \<and> NA \<notin> set (col_values (handle_missing_values scenario) ''NUMBER OF PERSONS INJURED'')"
proof -
  let ?c = "''NUMBER OF PERSONS INJURED''"
  have a: "has_col scenario ?c" by code_simp
  have b: "?c \<in> set LOCATION_COLS \<union> set INJURY_COLS"
    by (simp add: INJURY_COLS_def)
  have i: "col_values scenario ?c = [NA, FloatV 2, FloatV 0]" by code_simp
  have l: "col_values scenario ''LATITUDE'' = [FloatV (406 / 10), NA, FloatV (407 / 10)]"
    by code_simp
  have e: "map (\<lambda>r. if ?c \<in> set INJURY_COLS \<and> get_cell r ?c = NA
                     then (if dtype_of scenario ?c = Some D_float64 then FloatV 0 else IntV 0)
                     else get_cell r ?c)
               (filter (\<lambda>r. \<forall>l \<in> set LOCATION_COLS. has_col scenario l \<longrightarrow> get_cell r l \<noteq> NA)
                  (rows scenario)) = [FloatV 0, FloatV 0]"
    by code_simp
  note T = handle_missing_values_non_null [OF a b]
  have v: "col_values (handle_missing_values scenario) ?c = [FloatV 0, FloatV 0]"
    using T [THEN conjunct1] unfolding e .
  have n: "NA \<notin> set (col_values (handle_missing_values scenario) ?c)"
    unfolding v by simp
  show ?thesis by (intro conjI a b i l v n)
qed

subsection \<open>Representation facts\<close>

lemma uniform_set_dtype_same: "uniform (set_dtype cs c dt) c dt"
proof (cases "c \<in> fst ` set cs")
  case True
  then obtain b where "(c, b) \<in> set cs" by auto
  then have "(c, dt) \<in> set (map (\<lambda>(n, d). if n = c then (n, dt) else (n, d)) cs)"
    by force
  then have "c \<in> fst ` set (map (\<lambda>(n, d). if n = c then (n, dt) else (n, d)) cs)"
    by (rule rev_image_eqI) simp
  moreover have "\<forall>(n, d) \<in> set (map (\<lambda>(n, d). if n = c then (n, dt) else (n, d)) cs).
                   n = c \<longrightarrow> d = dt"
    by (auto split: if_splits)
  ultimately show ?thesis using True by (simp add: uniform_def set_dtype_def)
next
  case False
  then have "\<forall>(n, d) \<in> set cs. n \<noteq> c" by force
  with False show ?thesis by (auto simp: uniform_def set_dtype_def)
qed

lemma uniform_set_dtype_other: "c' \<noteq> c \<Longrightarrow> uniform cs c dt \<Longrightarrow> uniform (set_dtype cs c' dt') c dt"
  by (fastforce simp: uniform_def set_dtype_def split: prod.splits if_splits)

lemma set_dtype_fix: "uniform cs c dt \<Longrightarrow> set_dtype cs c dt = cs"
proof -
  assume u: "uniform cs c dt"
  then have "c \<in> set (map fst cs)" by (simp add: uniform_def)
  moreover have "map (\<lambda>(n, d). if n = c then (n, dt) else (n, d)) cs = cs"
    using u by (intro map_idI) (auto simp: uniform_def split: prod.splits)
  ultimately show ?thesis by (simp add: set_dtype_def)
qed

lemma uniform_dtype_of: "uniform (columns df) c dt \<Longrightarrow> dtype_of df c = Some dt"
  unfolding uniform_def dtype_of_def
  by (cases "map_of (columns df) c") (auto simp: map_of_eq_None_iff dest!: map_of_SomeD)

lemma keys_set_cell_mono: "c \<in> fst ` set r \<Longrightarrow> c \<in> fst ` set (set_cell r c' v)"
  by (simp add: keys_set_cell)

lemma has_key_assign_same: "has_key (assign_col df c dt f) c"
  by (simp add: has_key_def assign_col_def keys_set_cell)

lemma has_key_assign_other: "has_key df c \<Longrightarrow> has_key (assign_col df c' dt f) c"
  by (simp add: has_key_def assign_col_def keys_set_cell)

lemma assign_col_fix:
  assumes "has_key df c" and "uniform (columns df) c dt"
    and "\<And>r. r \<in> set (rows df) \<Longrightarrow> f r = get_cell r c"
  shows "assign_col df c dt f = df"
proof -
  have "map (\<lambda>r. set_cell r c (f r)) (rows df) = rows df"
    using assms(1,3) by (intro map_idI) (simp add: has_key_def set_cell_triv)
  then show ?thesis by (simp add: assign_col_def set_dtype_fix[OF assms(2)])
qed

lemma columns_replace_col: "columns (replace_col s c df) = columns df"
  by (simp add: replace_col_def)

lemma col_values_replace_col:
  "col_values (replace_col s c df) c' =
     (if c' = c then map (replace_cell s) (col_values df c) else col_values df c')"
  by (simp add: replace_col_def col_values_def get_set_cell o_def)

lemma has_key_replace_same: "has_key (replace_col s c df) c"
  by (simp add: has_key_def replace_col_def keys_set_cell)

lemma has_key_replace_other: "has_key df c \<Longrightarrow> has_key (replace_col s c' df) c"
  by (simp add: has_key_def replace_col_def keys_set_cell)

lemma replace_col_fix:
  assumes "has_key df c"
    and "\<And>r. r \<in> set (rows df) \<Longrightarrow> replace_cell s (get_cell r c) = get_cell r c"
  shows "replace_col s c df = df"
proof -
  have "map (\<lambda>r. set_cell r c (replace_cell s (get_cell r c))) (rows df) = rows df"
    using assms by (intro map_idI) (simp add: has_key_def set_cell_triv)
  then show ?thesis by (simp add: replace_col_def)
qed

lemma fold_fix: "(\<And>c. c \<in> set cs \<Longrightarrow> f c x = x) \<Longrightarrow> fold f cs x = x"
  by (induction cs) auto

subsection \<open>Stage 4, first step: trimming\<close>

lemma strip_col_unfold:
  "strip_col pd c df =
     (if strippable df c then assign_col df c D_string (\<lambda>r. strip_cell pd (get_cell r c)) else df)"
  by (simp add: strip_col_def strippable_def)

lemma col_values_strip_col:
  "col_values (strip_col pd c df) c' =
     (if c' = c \<and> strippable df c then map (strip_cell pd) (col_values df c) else col_values df c')"
  using col_values_assign_col_cell[where g="strip_cell pd"]
  by (simp add: strip_col_unfold)

lemma dtype_of_strip_col:
  "dtype_of (strip_col pd c df) c' =
     (if c' = c \<and> strippable df c then Some D_string else dtype_of df c')"
  by (simp add: strip_col_unfold dtype_of_assign_col)

lemma col_names_strip_col: "has_col df c \<Longrightarrow> col_names (strip_col pd c df) = col_names df"
  by (simp add: strip_col_unfold col_names_assign_col has_col_def)

lemma strippable_cong:
  "dtype_of d c = dtype_of d' c \<Longrightarrow> col_values d c = col_values d' c
   \<Longrightarrow> strippable d c = strippable d' c"
  by (simp add: strippable_def is_string_dtype_def)

lemma strippable_strip_col: "c' \<noteq> c \<Longrightarrow> strippable (strip_col pd c df) c' = strippable df c'"
  by (rule strippable_cong) (simp_all add: dtype_of_strip_col col_values_strip_col)

lemma col_names_fold_strip:
  "set cs \<subseteq> set (col_names df) \<Longrightarrow> col_names (fold (strip_col pd) cs df) = col_names df"
  by (induction cs arbitrary: df) (simp_all add: col_names_strip_col has_col_def)

lemma col_values_fold_strip:
  "distinct cs \<Longrightarrow> col_values (fold (strip_col pd) cs df) c =
     (if c \<in> set cs \<and> strippable df c then map (strip_cell pd) (col_values df c)
      else col_values df c)"
proof (induction cs arbitrary: df)
  case Nil
  then show ?case by simp
next
  case (Cons a cs)
  then have a: "a \<notin> set cs" "distinct cs" by simp_all
  have "c \<in> set cs \<Longrightarrow> strippable (strip_col pd a df) c = strippable df c"
    using a(1) by (intro strippable_strip_col) auto
  then show ?case
    using Cons.IH[of "strip_col pd a df"] a
    by (auto simp: col_values_strip_col)
qed

lemma dtype_of_fold_strip:
  "distinct cs \<Longrightarrow> dtype_of (fold (strip_col pd) cs df) c =
     (if c \<in> set cs \<and> strippable df c then Some D_string else dtype_of df c)"
proof (induction cs arbitrary: df)
  case Nil
  then show ?case by simp
next
  case (Cons a cs)
  then have a: "a \<notin> set cs" "distinct cs" by simp_all
  have "c \<in> set cs \<Longrightarrow> strippable (strip_col pd a df) c = strippable df c"
    using a(1) by (intro strippable_strip_col) auto
  then show ?case
    using Cons.IH[of "strip_col pd a df"] a
    by (auto simp: dtype_of_strip_col)
qed

lemma has_key_strip_col:
  "has_key df c' \<or> (c' = c \<and> strippable df c) \<Longrightarrow> has_key (strip_col pd c df) c'"
  by (auto simp: strip_col_unfold has_key_assign_same has_key_assign_other)

lemma has_key_fold_strip_mono: "has_key df c \<Longrightarrow> has_key (fold (strip_col pd) cs df) c"
  by (induction cs arbitrary: df) (simp_all add: has_key_strip_col)

lemma has_key_fold_strip:
  "distinct cs \<Longrightarrow> c \<in> set cs \<Longrightarrow> strippable df c \<Longrightarrow> has_key (fold (strip_col pd) cs df) c"
proof (induction cs arbitrary: df)
  case Nil
  then show ?case by simp
next
  case (Cons a cs)
  show ?case
  proof (cases "c = a")
    case True
    then have "has_key (strip_col pd a df) c" using Cons.prems(3) by (simp add: has_key_strip_col)
    then show ?thesis by (simp add: has_key_fold_strip_mono)
  next
    case False
    then have "c \<in> set cs" "distinct cs" "strippable (strip_col pd a df) c"
      using Cons.prems by (simp_all add: strippable_strip_col)
    then show ?thesis using Cons.IH by simp
  qed
qed

lemma uniform_strip_col:
  "(uniform (columns df) c' dt \<and> c' \<noteq> c) \<or> (c' = c \<and> strippable df c \<and> dt = D_string)
   \<Longrightarrow> uniform (columns (strip_col pd c df)) c' dt"
  by (auto simp: strip_col_unfold assign_col_def uniform_set_dtype_same uniform_set_dtype_other)

lemma uniform_fold_strip_other:
  "c \<notin> set cs \<Longrightarrow> uniform (columns df) c dt \<Longrightarrow> uniform (columns (fold (strip_col pd) cs df)) c dt"
  by (induction cs arbitrary: df) (simp_all add: uniform_strip_col)

lemma uniform_fold_strip:
  "distinct cs \<Longrightarrow> c \<in> set cs \<Longrightarrow> strippable df c
   \<Longrightarrow> uniform (columns (fold (strip_col pd) cs df)) c D_string"
proof (induction cs arbitrary: df)
  case Nil
  then show ?case by simp
next
  case (Cons a cs)
  show ?case
  proof (cases "c = a")
    case True
    then have "uniform (columns (strip_col pd a df)) c D_string" "c \<notin> set cs"
      using Cons.prems by (simp_all add: uniform_strip_col)
    then show ?thesis by (simp add: uniform_fold_strip_other)
  next
    case False
    then have "c \<in> set cs" "distinct cs" "strippable (strip_col pd a df) c"
      using Cons.prems by (simp_all add: strippable_strip_col)
    then show ?thesis using Cons.IH by simp
  qed
qed

subsection \<open>Text operations\<close>

lemma strip_trimmed: "trimmed s \<Longrightarrow> strip s = s"
proof (cases "s = []")
  case True
  then show ?thesis by (simp add: strip_def)
next
  case False
  assume "trimmed s"
  with False have a: "\<not> is_space (hd s)" "\<not> is_space (last s)" by (simp_all add: trimmed_def)
  have 1: "dropWhile is_space s = s" using a(1) by (simp add: dropWhile_eq_self_iff)
  have "hd (rev s) = last s" using False by (simp add: hd_rev)
  then have 2: "dropWhile is_space (rev s) = rev s" using a(2) by (simp add: dropWhile_eq_self_iff)
  show ?thesis by (simp add: strip_def 1 2)
qed

lemma last_dropWhile: "dropWhile P xs \<noteq> [] \<Longrightarrow> last (dropWhile P xs) = last xs"
proof -
  assume a: "dropWhile P xs \<noteq> []"
  have "last xs = last (takeWhile P xs @ dropWhile P xs)" by simp
  also have "\<dots> = last (dropWhile P xs)" by (rule last_appendR[OF a])
  finally show ?thesis by simp
qed

lemma trimmed_strip: "trimmed (strip s)"
proof -
  define t where "t = dropWhile is_space s"
  define u where "u = dropWhile is_space (rev t)"
  have s: "strip s = rev u" by (simp add: strip_def t_def u_def)
  show ?thesis
  proof (cases "u = []")
    case True
    then show ?thesis by (simp add: s trimmed_def)
  next
    case False
    then have "\<not> is_space (hd u)" unfolding u_def by (rule hd_dropWhile)
    then have l: "\<not> is_space (last (rev u))" using False by (simp add: last_rev)
    have "rev t \<noteq> []" using False unfolding u_def by auto
    then have tne: "t \<noteq> []" by simp
    then have ht: "\<not> is_space (hd t)" unfolding t_def by (rule hd_dropWhile)
    have "last u = last (rev t)" using False unfolding u_def by (rule last_dropWhile)
    also have "\<dots> = hd t" using tne by (simp add: last_rev)
    finally have "hd (rev u) = hd t" using False by (simp add: hd_rev)
    with ht l False show ?thesis by (simp add: s trimmed_def)
  qed
qed

lemma strip_idem: "strip (strip s) = strip s"
  by (rule strip_trimmed) (rule trimmed_strip)

lemma strip_Unknown: "strip (text_of ''Unknown'') = text_of ''Unknown''"
  by code_simp

lemma strip_Unspecified: "strip (text_of ''Unspecified'') = text_of ''Unspecified''"
  by code_simp

subsection \<open>Cell operations of stage 4\<close>

lemma strip_cell_idem: "strip_cell pd (strip_cell pd v) = strip_cell pd v"
  by (cases v) (simp_all add: strip_cell_def strip_idem)

lemma replace_cell_idem: "replace_cell s (replace_cell s v) = replace_cell s v"
  by (simp add: replace_cell_def)

lemma strip_cell_replace_cell:
  "strip_cell pd x = x \<Longrightarrow> strip_cell pd (replace_cell s x) = replace_cell s x"
  by (simp add: replace_cell_def strip_cell_def)

lemma is_str_strip_cell: "is_str (strip_cell pd v) \<or> strip_cell pd v = NA"
  by (cases v) (simp_all add: strip_cell_def is_str_def)


subsection \<open>Stage 4: the three steps as column maps\<close>

lemma distinct_TEXT_COLS: "distinct TEXT_COLS"
  by (simp add: TEXT_COLS_def)

lemma BOROUGH_in_TEXT_COLS: "''BOROUGH'' \<in> set TEXT_COLS"
  by (simp add: TEXT_COLS_def)

lemma BOROUGH_notin_FACTOR_COLS: "''BOROUGH'' \<notin> set FACTOR_COLS"
  by (simp add: FACTOR_COLS_def)

lemma FACTOR_COLS_subset_TEXT_COLS: "c \<in> set FACTOR_COLS \<Longrightarrow> c \<in> set TEXT_COLS"
  by (auto simp: FACTOR_COLS_def TEXT_COLS_def)

lemma distinct_ensure_columns_exist: "distinct cs \<Longrightarrow> distinct (ensure_columns_exist df cs)"
  by (simp add: ensure_columns_exist_def)

lemma ensure_columns_exist_subset: "set (ensure_columns_exist df cs) \<subseteq> set (col_names df)"
  by (auto simp: ensure_columns_exist_def)

lemma ensure_columns_exist_cong:
  "col_names d = col_names d' \<Longrightarrow> ensure_columns_exist d cs = ensure_columns_exist d' cs"
  by (simp add: ensure_columns_exist_def)

lemma has_col_cong: "col_names d = col_names d' \<Longrightarrow> has_col d c = has_col d' c"
  by (simp add: has_col_def)

lemma col_names_strip_step: "col_names (strip_step pd df) = col_names df"
  unfolding strip_step_def by (rule col_names_fold_strip) (rule ensure_columns_exist_subset)

lemma col_values_strip_step:
  "col_values (strip_step pd df) c =
     (if c \<in> set TEXT_COLS \<and> has_col df c \<and> strippable df c
      then map (strip_cell pd) (col_values df c) else col_values df c)"
  unfolding strip_step_def
  by (simp add: col_values_fold_strip distinct_ensure_columns_exist distinct_TEXT_COLS
      set_ensure_columns_exist)

lemma dtype_of_strip_step:
  "dtype_of (strip_step pd df) c =
     (if c \<in> set TEXT_COLS \<and> has_col df c \<and> strippable df c
      then Some D_string else dtype_of df c)"
  unfolding strip_step_def
  by (simp add: dtype_of_fold_strip distinct_ensure_columns_exist distinct_TEXT_COLS
      set_ensure_columns_exist)

lemma str_title_Inr:
  assumes "str_title pd df c = Inr d"
  shows "d = assign_col df c (if dtype_of df c = Some D_string then D_string else D_object)
               (\<lambda>r. title_cell pd (get_cell r c))"
    and "dtype_of df c = Some D_string \<or> dtype_of df c = Some D_object
         \<or> dtype_of df c = Some D_category"
  using assms by (auto simp: str_title_def split: option.splits dtype.splits)

lemma str_title_ok:
  "dtype_of df c = Some D_string \<or> dtype_of df c = Some D_object \<or> dtype_of df c = Some D_category
   \<Longrightarrow> \<exists>d. str_title pd df c = Inr d"
  by (auto simp: str_title_def)

lemma title_step_Inr:
  assumes "title_step pd df = Inr d"
  shows "col_names d = col_names df"
    and "col_values d c =
          (if c = ''BOROUGH'' \<and> has_col df c then map (title_cell pd) (col_values df c)
           else col_values df c)"
    and "dtype_of d c =
          (if c = ''BOROUGH'' \<and> has_col df c
           then (if dtype_of df c = Some D_string then Some D_string else Some D_object)
           else dtype_of df c)"
proof -
  show "col_names d = col_names df"
    using assms by (auto simp: title_step_def col_names_assign_col split: if_splits
        dest!: str_title_Inr(1))
  show "col_values d c =
          (if c = ''BOROUGH'' \<and> has_col df c then map (title_cell pd) (col_values df c)
           else col_values df c)"
    using assms col_values_assign_col_cell[where g="title_cell pd"]
    by (auto simp: title_step_def has_col_def split: if_splits dest!: str_title_Inr(1))
  show "dtype_of d c =
          (if c = ''BOROUGH'' \<and> has_col df c
           then (if dtype_of df c = Some D_string then Some D_string else Some D_object)
           else dtype_of df c)"
    using assms
    by (auto simp: title_step_def has_col_def dtype_of_assign_col split: if_splits
        dest!: str_title_Inr(1))
qed

lemma columns_fold_replace: "columns (fold (replace_col s) cs df) = columns df"
  by (induction cs arbitrary: df) (simp_all add: columns_replace_col)

lemma col_values_fold_replace:
  "col_values (fold (replace_col s) cs df) c =
     (if c \<in> set cs then map (replace_cell s) (col_values df c) else col_values df c)"
  by (induction cs arbitrary: df) (auto simp: col_values_replace_col replace_cell_idem o_def)

lemma columns_replace_step: "columns (replace_step df) = columns df"
  by (simp add: replace_step_def columns_fold_replace)

lemma col_values_replace_step:
  "col_values (replace_step df) c =
     (if c \<in> set FACTOR_COLS \<and> has_col df c then map (replace_cell (text_of ''Unspecified'')) (col_values df c)
      else col_values df c)"
  by (simp add: replace_step_def col_values_fold_replace set_ensure_columns_exist)

lemma clean_text_steps:
  "clean_text pd df =
     (case title_step pd (strip_step pd df) of Inl e \<Rightarrow> Inl e | Inr df2 \<Rightarrow> Inr (replace_step df2))"
  unfolding clean_text_def strip_step_def title_step_def replace_step_def Let_def ..

lemma clean_text_Inr:
  assumes "clean_text pd df = Inr df'"
  obtains df2 where "title_step pd (strip_step pd df) = Inr df2" and "df' = replace_step df2"
  using assms by (auto simp: clean_text_steps split: sum.splits)

lemma col_names_clean_text: "clean_text pd df = Inr df' \<Longrightarrow> col_names df' = col_names df"
  by (erule clean_text_Inr)
     (simp add: col_names_def[of "replace_step _"] columns_replace_step title_step_Inr(1)
        col_names_strip_step flip: col_names_def)

lemma col_values_clean_text:
  assumes "clean_text pd df = Inr df'"
  shows "col_values df' c = map (clean_cell pd df c) (col_values df c)"
proof -
  from assms obtain df2 where t: "title_step pd (strip_step pd df) = Inr df2"
    and r: "df' = replace_step df2" by (rule clean_text_Inr)
  have n1: "has_col (strip_step pd df) c = has_col df c" for c
    by (rule has_col_cong) (rule col_names_strip_step)
  have n2: "has_col df2 c = has_col df c" for c
    by (simp add: has_col_def title_step_Inr(1)[OF t] col_names_strip_step)
  define A where "A = (c \<in> set TEXT_COLS \<and> has_col df c \<and> strippable df c)"
  define B where "B = (c = ''BOROUGH'' \<and> has_col df c)"
  define C where "C = (c \<in> set FACTOR_COLS \<and> has_col df c)"
  have e: "clean_cell pd df c =
      (\<lambda>v. (if C then replace_cell (text_of ''Unspecified'') else id)
             ((if B then title_cell pd else id) ((if A then strip_cell pd else id) v)))"
    by (auto simp: fun_eq_iff clean_cell_def Let_def A_def B_def C_def)
  have 1: "col_values (strip_step pd df) c =
      map (if A then strip_cell pd else id) (col_values df c)"
    by (auto simp: col_values_strip_step A_def)
  have 2: "col_values df2 c = map (if B then title_cell pd else id) (col_values (strip_step pd df) c)"
    by (auto simp: title_step_Inr(2)[OF t] n1 B_def)
  have 3: "col_values df' c = map (if C then replace_cell (text_of ''Unspecified'') else id) (col_values df2 c)"
    by (auto simp: r col_values_replace_step n2 C_def)
  show ?thesis unfolding 3 2 1 e by (simp add: o_def)
qed


subsection \<open>Stage 4: the sentinel\<close>

lemma clean_cell_factor:
  "c \<in> set FACTOR_COLS \<Longrightarrow> has_col df c \<Longrightarrow>
   clean_cell pd df c v =
     replace_cell (text_of ''Unspecified'') (if strippable df c then strip_cell pd v else v)"
  using BOROUGH_notin_FACTOR_COLS
  by (auto simp: clean_cell_def Let_def FACTOR_COLS_subset_TEXT_COLS)

text \<open>
  Claim C8. After \<open>clean_text\<close> no cell of a contributing-factor column is the text
  \<open>Unspecified\<close>. The cell that is replaced by a null is the one whose text, after the
  trimming step where that step applies to the column, is exactly \<open>Unspecified\<close>;
  every other cell keeps its (trimmed) value.
\<close>

theorem clean_text_no_unspecified:
  assumes "clean_text pd df = Inr df'" and "c \<in> set FACTOR_COLS" and "has_col df c"
  shows "(\<forall>r' \<in> set (rows df'). get_cell r' c \<noteq> Str ''Unspecified'')
       \<and> col_values df' c =
           map (\<lambda>v. let t = (if strippable df c then strip_cell pd v else v)
                    in if t = Str ''Unspecified'' then NA else t) (col_values df c)"
proof -
  have cv: "col_values df' c =
           map (\<lambda>v. let t = (if strippable df c then strip_cell pd v else v)
                    in if t = Str ''Unspecified'' then NA else t) (col_values df c)"
    unfolding col_values_clean_text[OF assms(1)]
    by (rule map_cong) (simp_all add: clean_cell_factor[OF assms(2,3)] replace_cell_def Let_def)
  have "get_cell r' c \<noteq> Str ''Unspecified''" if "r' \<in> set (rows df')" for r'
  proof -
    have "get_cell r' c \<in> set (col_values df' c)" using that by (rule get_cell_in_col_values)
    then show ?thesis unfolding cv by (auto simp: Let_def split: if_splits)
  qed
  with cv show ?thesis by blast
qed

theorem clean_text_no_unspecified_witness:
  "clean_text (no_parquet_env factor_table) factor_table = Inr factor_table_clean
   \<and> ''CONTRIBUTING FACTOR VEHICLE 2'' \<in> set FACTOR_COLS
   \<and> has_col factor_table ''CONTRIBUTING FACTOR VEHICLE 2''
   \<and> Str ''Unspecified'' \<notin> set (col_values factor_table_clean ''CONTRIBUTING FACTOR VEHICLE 2'')
   \<and> col_values factor_table_clean ''CONTRIBUTING FACTOR VEHICLE 2''
       = [NA, Str ''unspecified'', Str ''Unspecified vehicle'', NA]"
proof -
  have a: "clean_text (no_parquet_env factor_table) factor_table = Inr factor_table_clean"
    by code_simp
  have b: "''CONTRIBUTING FACTOR VEHICLE 2'' \<in> set FACTOR_COLS" by (simp add: FACTOR_COLS_def)
  have c: "has_col factor_table ''CONTRIBUTING FACTOR VEHICLE 2''" by code_simp
  have d: "col_values factor_table_clean ''CONTRIBUTING FACTOR VEHICLE 2''
       = [NA, Str ''unspecified'', Str ''Unspecified vehicle'', NA]" by code_simp
  from clean_text_no_unspecified [OF a b c]
  have "\<forall>r' \<in> set (rows factor_table_clean).
          get_cell r' ''CONTRIBUTING FACTOR VEHICLE 2'' \<noteq> Str ''Unspecified''"
    by blast
  then have e: "Str ''Unspecified''
                  \<notin> set (col_values factor_table_clean ''CONTRIBUTING FACTOR VEHICLE 2'')"
    by (auto simp: col_values_def)
  show ?thesis using a b c d e by blast
qed


subsection \<open>Stage 4: idempotence\<close>

lemma has_key_fold_replace_mono: "has_key df c \<Longrightarrow> has_key (fold (replace_col s) cs df) c"
  by (induction cs arbitrary: df) (simp_all add: has_key_replace_other)

lemma has_key_fold_replace: "c \<in> set cs \<Longrightarrow> has_key (fold (replace_col s) cs df) c"
proof (induction cs arbitrary: df)
  case Nil
  then show ?case by simp
next
  case (Cons a cs)
  show ?case
  proof (cases "c = a")
    case True
    then show ?thesis by (simp add: has_key_fold_replace_mono has_key_replace_same)
  next
    case False
    then show ?thesis using Cons by simp
  qed
qed

lemma has_key_title_step_mono: "title_step pd d = Inr d' \<Longrightarrow> has_key d c \<Longrightarrow> has_key d' c"
  by (auto simp: title_step_def has_key_assign_other split: if_splits dest!: str_title_Inr(1))

lemma has_key_title_step: "title_step pd d = Inr d' \<Longrightarrow> has_col d ''BOROUGH'' \<Longrightarrow> has_key d' ''BOROUGH''"
  by (auto simp: title_step_def has_col_def has_key_assign_same split: if_splits
      dest!: str_title_Inr(1))

lemma uniform_title_step_other:
  "title_step pd d = Inr d' \<Longrightarrow> c \<noteq> ''BOROUGH'' \<Longrightarrow> uniform (columns d) c dt
   \<Longrightarrow> uniform (columns d') c dt"
  by (auto simp: title_step_def assign_col_def uniform_set_dtype_other split: if_splits
      dest!: str_title_Inr(1))

lemma uniform_title_step:
  "title_step pd d = Inr d' \<Longrightarrow> has_col d ''BOROUGH''
   \<Longrightarrow> uniform (columns d') ''BOROUGH''
         (if dtype_of d ''BOROUGH'' = Some D_string then D_string else D_object)"
  by (auto simp: title_step_def has_col_def assign_col_def uniform_set_dtype_same
      split: if_splits dest!: str_title_Inr(1))

lemma title_step_dtype:
  "title_step pd d = Inr d' \<Longrightarrow> has_col d ''BOROUGH''
   \<Longrightarrow> dtype_of d ''BOROUGH'' = Some D_string \<or> dtype_of d ''BOROUGH'' = Some D_object
       \<or> dtype_of d ''BOROUGH'' = Some D_category"
  by (auto simp: title_step_def has_col_def split: if_splits dest: str_title_Inr(2))

lemma title_step_fix:
  assumes "has_col d ''BOROUGH'' \<Longrightarrow> has_key d ''BOROUGH''"
    and "has_col d ''BOROUGH'' \<Longrightarrow>
           uniform (columns d) ''BOROUGH'' D_string \<or> uniform (columns d) ''BOROUGH'' D_object"
    and "\<And>r. has_col d ''BOROUGH'' \<Longrightarrow> r \<in> set (rows d)
           \<Longrightarrow> title_cell pd (get_cell r ''BOROUGH'') = get_cell r ''BOROUGH''"
  shows "title_step pd d = Inr d"
proof (cases "has_col d ''BOROUGH''")
  case False
  then show ?thesis by (simp add: title_step_def has_col_def)
next
  case True
  from assms(2)[OF True] show ?thesis
  proof
    assume u: "uniform (columns d) ''BOROUGH'' D_string"
    then have "dtype_of d ''BOROUGH'' = Some D_string" by (rule uniform_dtype_of)
    moreover have "assign_col d ''BOROUGH'' D_string (\<lambda>r. title_cell pd (get_cell r ''BOROUGH'')) = d"
      using assms(1)[OF True] u assms(3)[OF True] by (rule assign_col_fix)
    ultimately show ?thesis using True by (simp add: title_step_def has_col_def str_title_def)
  next
    assume u: "uniform (columns d) ''BOROUGH'' D_object"
    then have "dtype_of d ''BOROUGH'' = Some D_object" by (rule uniform_dtype_of)
    moreover have "assign_col d ''BOROUGH'' D_object (\<lambda>r. title_cell pd (get_cell r ''BOROUGH'')) = d"
      using assms(1)[OF True] u assms(3)[OF True] by (rule assign_col_fix)
    ultimately show ?thesis using True by (simp add: title_step_def has_col_def str_title_def)
  qed
qed

lemma strip_step_fix:
  assumes "\<And>c. c \<in> set TEXT_COLS \<Longrightarrow> has_col d c \<Longrightarrow> strippable d c \<Longrightarrow>
            has_key d c \<and> uniform (columns d) c D_string
            \<and> (\<forall>r \<in> set (rows d). strip_cell pd (get_cell r c) = get_cell r c)"
  shows "strip_step pd d = d"
  unfolding strip_step_def
proof (rule fold_fix)
  fix c assume "c \<in> set (ensure_columns_exist d TEXT_COLS)"
  then have c: "c \<in> set TEXT_COLS" "has_col d c" by (simp_all add: set_ensure_columns_exist)
  show "strip_col pd c d = d"
  proof (cases "strippable d c")
    case False
    then show ?thesis by (simp add: strip_col_unfold)
  next
    case True
    from assms[OF c True] have "assign_col d c D_string (\<lambda>r. strip_cell pd (get_cell r c)) = d"
      by (intro assign_col_fix) auto
    with True show ?thesis by (simp add: strip_col_unfold)
  qed
qed

lemma replace_step_fix:
  assumes "\<And>c. c \<in> set FACTOR_COLS \<Longrightarrow> has_col d c \<Longrightarrow>
            has_key d c
            \<and> (\<forall>r \<in> set (rows d). replace_cell (text_of ''Unspecified'') (get_cell r c) = get_cell r c)"
  shows "replace_step d = d"
  unfolding replace_step_def
proof (rule fold_fix)
  fix c assume "c \<in> set (ensure_columns_exist d FACTOR_COLS)"
  then have c: "c \<in> set FACTOR_COLS" "has_col d c" by (simp_all add: set_ensure_columns_exist)
  from assms[OF c] show "replace_col (text_of ''Unspecified'') c d = d"
    by (intro replace_col_fix) auto
qed


lemma strip_cell_clean_cell:
  "c \<in> set TEXT_COLS \<Longrightarrow> has_col df c \<Longrightarrow> strippable df c \<Longrightarrow> c \<noteq> ''BOROUGH''
   \<Longrightarrow> strip_cell pd (clean_cell pd df c v) = clean_cell pd df c v"
  by (simp add: clean_cell_def Let_def strip_cell_replace_cell strip_cell_idem)

lemma clean_cell_BOROUGH:
  "has_col df ''BOROUGH'' \<Longrightarrow>
   clean_cell pd df ''BOROUGH'' v =
     title_cell pd (if strippable df ''BOROUGH'' then strip_cell pd v else v)"
  using BOROUGH_notin_FACTOR_COLS BOROUGH_in_TEXT_COLS by (simp add: clean_cell_def Let_def)

lemma replace_cell_clean_cell:
  "c \<in> set FACTOR_COLS \<Longrightarrow> has_col df c \<Longrightarrow>
   replace_cell (text_of ''Unspecified'') (clean_cell pd df c v) = clean_cell pd df c v"
  by (simp add: clean_cell_def Let_def replace_cell_idem)

lemma not_is_str_clean_cell:
  "\<not> (c \<in> set TEXT_COLS \<and> has_col df c \<and> strippable df c) \<Longrightarrow> \<not> is_str v
   \<Longrightarrow> \<not> is_str (clean_cell pd df c v)"
  by (cases v) (auto simp: clean_cell_def Let_def is_str_def title_cell_def replace_cell_def)

lemma dtype_of_columns_cong: "columns d = columns d' \<Longrightarrow> dtype_of d c = dtype_of d' c"
  by (simp add: dtype_of_def)

lemma strippable_iff:
  "strippable d c \<longleftrightarrow>
     dtype_of d c = Some D_string \<or> dtype_of d c = Some D_category
     \<or> (dtype_of d c = Some D_object \<and> (\<forall>v \<in> set (col_values d c). is_str v))"
  by (auto simp: strippable_def is_string_dtype_def)

text \<open>A column that the first step leaves alone is left alone by a second run as well.\<close>

lemma clean_text_not_strippable:
  assumes ct: "clean_text pd df = Inr df'"
    and c: "has_col df c" and ns: "\<not> strippable df c"
  shows "\<not> strippable df' c"
proof -
  from ct obtain d2 where t: "title_step pd (strip_step pd df) = Inr d2"
    and r: "df' = replace_step d2" by (rule clean_text_Inr)
  have h1: "has_col (strip_step pd df) c = has_col df c" for c
    by (rule has_col_cong) (rule col_names_strip_step)
  have d1: "dtype_of (strip_step pd df) c = dtype_of df c"
    using ns by (simp add: dtype_of_strip_step)
  have d': "dtype_of df' k = dtype_of d2 k" for k
    unfolding r by (rule dtype_of_columns_cong) (rule columns_replace_step)
  have cv: "col_values df' c = map (clean_cell pd df c) (col_values df c)"
    using ct by (rule col_values_clean_text)
  have nonstr: "\<exists>v \<in> set (col_values df' c). \<not> is_str v"
    if "\<exists>v \<in> set (col_values df c). \<not> is_str v"
  proof -
    from that obtain v where v: "v \<in> set (col_values df c)" "\<not> is_str v" by blast
    have "\<not> is_str (clean_cell pd df c v)" using ns v(2) by (intro not_is_str_clean_cell) auto
    with v(1) show ?thesis unfolding cv by auto
  qed
  show ?thesis
  proof (cases "c = ''BOROUGH''")
    case True
    have "dtype_of (strip_step pd df) ''BOROUGH'' = Some D_string
          \<or> dtype_of (strip_step pd df) ''BOROUGH'' = Some D_object
          \<or> dtype_of (strip_step pd df) ''BOROUGH'' = Some D_category"
      using c True by (intro title_step_dtype[OF t]) (simp_all add: h1)
    then have o: "dtype_of df c = Some D_object" and e: "\<exists>v \<in> set (col_values df c). \<not> is_str v"
      using ns d1 True by (auto simp: strippable_iff)
    have hb: "has_col (strip_step pd df) ''BOROUGH''" using c True by (simp add: h1)
    have "dtype_of (strip_step pd df) ''BOROUGH'' = Some D_object" using o d1 True by simp
    then have "dtype_of d2 ''BOROUGH'' = Some D_object"
      using hb by (simp add: title_step_Inr(3)[OF t])
    then have "dtype_of df' c = Some D_object" using True by (simp add: d')
    moreover from nonstr[OF e] have "\<not> (\<forall>v \<in> set (col_values df' c). is_str v)" by blast
    ultimately show ?thesis by (simp add: strippable_iff)
  next
    case False
    then have "dtype_of df' c = dtype_of df c"
      by (simp add: d' title_step_Inr(3)[OF t] d1)
    moreover have "\<not> (\<forall>v \<in> set (col_values df' c). is_str v)"
      if "\<not> (\<forall>v \<in> set (col_values df c). is_str v)"
      using nonstr that by blast
    ultimately show ?thesis using ns unfolding strippable_iff by metis
  qed
qed

lemma title_cell_shape: "c = title_cell pd w \<Longrightarrow> c = NA \<or> (\<exists>t. c = StrV t)"
  by (cases w) (simp_all add: title_cell_def)

lemma map_fixed: "map f xs = xs \<Longrightarrow> x \<in> set xs \<Longrightarrow> f x = x"
  by (induction xs) auto

lemma clean_text_fixed:
  assumes ct: "clean_text pd df = Inr df'"
    and S: "\<forall>t. StrV t \<in> set (col_values df' ''BOROUGH'') \<longrightarrow>
              (strippable df' ''BOROUGH'' \<longrightarrow> strip t = t) \<and> py_title pd t = t"
  shows "clean_text pd df' = Inr df'"
proof -
  from ct obtain d2 where t: "title_step pd (strip_step pd df) = Inr d2"
    and r: "df' = replace_step d2" by (rule clean_text_Inr)
  define d1 where "d1 = strip_step pd df"
  note t' = t[folded d1_def]
  have n1: "col_names d1 = col_names df" unfolding d1_def by (rule col_names_strip_step)
  have n2: "col_names d2 = col_names df" using title_step_Inr(1)[OF t'] n1 by simp
  have n': "col_names df' = col_names df" using ct by (rule col_names_clean_text)
  have h1: "has_col d1 c = has_col df c" for c by (rule has_col_cong) (rule n1)
  have h2: "has_col d2 c = has_col df c" for c by (rule has_col_cong) (rule n2)
  have h': "has_col df' c = has_col df c" for c by (rule has_col_cong) (rule n')
  have cols': "columns df' = columns d2" unfolding r by (rule columns_replace_step)
  have cv: "col_values df' c = map (clean_cell pd df c) (col_values df c)" for c
    using ct by (rule col_values_clean_text)
  have cell: "\<exists>v. get_cell x c = clean_cell pd df c v" if "x \<in> set (rows df')" for x c
  proof -
    have "get_cell x c \<in> set (col_values df' c)" using that by (rule get_cell_in_col_values)
    then show ?thesis unfolding cv by auto
  qed
  have borough_cell: "get_cell x ''BOROUGH'' = NA \<or> (\<exists>t. get_cell x ''BOROUGH'' = StrV t)"
    if hb: "has_col df ''BOROUGH''" and x: "x \<in> set (rows df')" for x
  proof -
    obtain v where "get_cell x ''BOROUGH'' = clean_cell pd df ''BOROUGH'' v"
      using cell[OF x, of "''BOROUGH''"] by blast
    then show ?thesis
      unfolding clean_cell_BOROUGH[OF hb] by (rule title_cell_shape)
  qed
  have dist: "distinct (ensure_columns_exist df TEXT_COLS)"
    by (rule distinct_ensure_columns_exist) (rule distinct_TEXT_COLS)
  \<comment> \<open>the columns trimmed by the first run\<close>
  have K1: "has_key df' c" and U1: "uniform (columns df') c D_string"
    if S: "c \<in> set TEXT_COLS" "has_col df c" "strippable df c" for c
  proof -
    have mem: "c \<in> set (ensure_columns_exist df TEXT_COLS)"
      using S by (simp add: set_ensure_columns_exist)
    have "has_key d1 c" unfolding d1_def strip_step_def
      using dist mem S(3) by (rule has_key_fold_strip)
    then have "has_key d2 c" by (rule has_key_title_step_mono[OF t'])
    then show "has_key df' c" unfolding r replace_step_def by (rule has_key_fold_replace_mono)
    have u1: "uniform (columns d1) c D_string" unfolding d1_def strip_step_def
      using dist mem S(3) by (rule uniform_fold_strip)
    have "uniform (columns d2) c D_string"
    proof (cases "c = ''BOROUGH''")
      case False
      then show ?thesis using u1 by (rule uniform_title_step_other[OF t'])
    next
      case True
      have "dtype_of d1 ''BOROUGH'' = Some D_string"
        using u1 True by (simp add: uniform_dtype_of)
      moreover have "has_col d1 ''BOROUGH''" using S(2) True by (simp add: h1)
      ultimately show ?thesis using uniform_title_step[OF t'] True by simp
    qed
    then show "uniform (columns df') c D_string" by (simp add: cols')
  qed
  have 1: "strip_step pd df' = df'"
  proof (rule strip_step_fix)
    fix c assume a: "c \<in> set TEXT_COLS" "has_col df' c" "strippable df' c"
    then have hc: "has_col df c" by (simp add: h')
    have st: "strippable df c"
      using clean_text_not_strippable[OF ct hc] a(3) by blast
    have "strip_cell pd (get_cell x c) = get_cell x c" if x: "x \<in> set (rows df')" for x
    proof (cases "c = ''BOROUGH''")
      case False
      then show ?thesis
        using cell[OF x, of c] strip_cell_clean_cell[OF a(1) hc st] by auto
    next
      case True
      from borough_cell[OF hc[unfolded True] x] show ?thesis
      proof
        assume "get_cell x ''BOROUGH'' = NA"
        then show ?thesis using True by (simp add: strip_cell_def)
      next
        assume "\<exists>t. get_cell x ''BOROUGH'' = StrV t"
        then obtain t where t: "get_cell x ''BOROUGH'' = StrV t" by blast
        then have "StrV t \<in> set (col_values df' ''BOROUGH'')"
          using get_cell_in_col_values[OF x, of "''BOROUGH''"] by simp
        then have "strip t = t" using S a(3) True by blast
        then show ?thesis using True t by (simp add: strip_cell_def)
      qed
    qed
    with K1[OF a(1) hc st] U1[OF a(1) hc st]
    show "has_key df' c \<and> uniform (columns df') c D_string
            \<and> (\<forall>r \<in> set (rows df'). strip_cell pd (get_cell r c) = get_cell r c)"
      by blast
  qed
  have 2: "title_step pd df' = Inr df'"
  proof (rule title_step_fix)
    assume "has_col df' ''BOROUGH''"
    then have hb: "has_col df ''BOROUGH''" by (simp add: h')
    have "has_col d1 ''BOROUGH''" using hb by (simp add: h1)
    then have "has_key d2 ''BOROUGH''" by (rule has_key_title_step[OF t'])
    then show "has_key df' ''BOROUGH''"
      unfolding r replace_step_def by (rule has_key_fold_replace_mono)
    have "uniform (columns d2) ''BOROUGH''
            (if dtype_of d1 ''BOROUGH'' = Some D_string then D_string else D_object)"
      using hb by (intro uniform_title_step[OF t']) (simp add: h1)
    then show "uniform (columns df') ''BOROUGH'' D_string \<or> uniform (columns df') ''BOROUGH'' D_object"
      by (auto simp: cols' split: if_splits)
  next
    fix x assume "has_col df' ''BOROUGH''" and x: "x \<in> set (rows df')"
    then have hb: "has_col df ''BOROUGH''" by (simp add: h')
    from borough_cell[OF hb x]
    show "title_cell pd (get_cell x ''BOROUGH'') = get_cell x ''BOROUGH''"
    proof
      assume "get_cell x ''BOROUGH'' = NA"
      then show ?thesis by (simp add: title_cell_def)
    next
      assume "\<exists>t. get_cell x ''BOROUGH'' = StrV t"
      then obtain t where t: "get_cell x ''BOROUGH'' = StrV t" by blast
      then have "StrV t \<in> set (col_values df' ''BOROUGH'')"
        using get_cell_in_col_values[OF x, of "''BOROUGH''"] by simp
      then have "py_title pd t = t" using S by blast
      then show ?thesis using t by (simp add: title_cell_def)
    qed
  qed
  have 3: "replace_step df' = df'"
  proof (rule replace_step_fix)
    fix c assume a: "c \<in> set FACTOR_COLS" "has_col df' c"
    then have hc: "has_col df c" by (simp add: h')
    have "c \<in> set (ensure_columns_exist d2 FACTOR_COLS)"
      using a(1) hc by (simp add: set_ensure_columns_exist h2)
    then have "has_key df' c" unfolding r replace_step_def by (rule has_key_fold_replace)
    moreover have "replace_cell (text_of ''Unspecified'') (get_cell x c) = get_cell x c"
      if "x \<in> set (rows df')" for x
      using cell[OF that, of c] replace_cell_clean_cell[OF a(1) hc] by auto
    ultimately show "has_key df' c
        \<and> (\<forall>r \<in> set (rows df'). replace_cell (text_of ''Unspecified'') (get_cell r c) = get_cell r c)"
      by blast
  qed
  show ?thesis by (simp add: clean_text_steps 1 2 3)
qed

lemma clean_text_fixed_only_if:
  assumes i: "clean_text pd df' = Inr df'" and hb: "has_col df' ''BOROUGH''"
    and t: "StrV t \<in> set (col_values df' ''BOROUGH'')"
  shows "py_title pd (if strippable df' ''BOROUGH'' then strip t else t) = t"
proof -
  have "map (clean_cell pd df' ''BOROUGH'') (col_values df' ''BOROUGH'') = col_values df' ''BOROUGH''"
    using col_values_clean_text[OF i, of "''BOROUGH''"] by simp
  then have "clean_cell pd df' ''BOROUGH'' (StrV t) = StrV t" using t by (rule map_fixed)
  then show ?thesis
    unfolding clean_cell_BOROUGH[OF hb] by (simp add: title_cell_def strip_cell_def split: if_splits)
qed

text \<open>
  Claim C9. The claim says \<open>clean_text\<close> applied to a table it has returned gives that
  table again, for every table. It does not for every text: \<open>str.title\<close> of a text it
  has produced can be another text. What holds for a table \<open>df'\<close> that \<open>clean_text\<close>
  has returned: the second run returns \<open>df'\<close> whenever each borough text of \<open>df'\<close> is
  unchanged by \<open>str.title\<close> and, where the run trims the borough column, by
  \<open>str.strip\<close>; and when the second run returns \<open>df'\<close>, each borough text of \<open>df'\<close> is
  the title-cased form of its trimmed self. The other text columns need no
  condition.
\<close>

theorem clean_text_idempotent_when_titles_fixed:
  assumes "clean_text pd df = Inr df'"
  shows "((\<forall>t. StrV t \<in> set (col_values df' ''BOROUGH'') \<longrightarrow>
              (strippable df' ''BOROUGH'' \<longrightarrow> strip t = t) \<and> py_title pd t = t)
            \<longrightarrow> clean_text pd df' = Inr df')
       \<and> (clean_text pd df' = Inr df' \<and> has_col df' ''BOROUGH'' \<longrightarrow>
            (\<forall>t. StrV t \<in> set (col_values df' ''BOROUGH'') \<longrightarrow>
                 py_title pd (if strippable df' ''BOROUGH'' then strip t else t) = t))"
proof (intro conjI impI allI)
  assume "\<forall>t. StrV t \<in> set (col_values df' ''BOROUGH'') \<longrightarrow>
              (strippable df' ''BOROUGH'' \<longrightarrow> strip t = t) \<and> py_title pd t = t"
  with assms show "clean_text pd df' = Inr df'" by (rule clean_text_fixed)
next
  fix t
  assume a: "clean_text pd df' = Inr df' \<and> has_col df' ''BOROUGH''"
    and t: "StrV t \<in> set (col_values df' ''BOROUGH'')"
  from a have i: "clean_text pd df' = Inr df'" and hb: "has_col df' ''BOROUGH''" by simp_all
  show "py_title pd (if strippable df' ''BOROUGH'' then strip t else t) = t"
    using i hb t by (rule clean_text_fixed_only_if)
qed

text \<open>
  The borough \<open>U+01F0 a\<close> (small j with caron, then a): the first run gives
  \<open>J U+030C a\<close>, the second run gives \<open>J U+030C A\<close>.
\<close>

theorem clean_text_twice_differs:
  "clean_text (no_parquet_env caron_table) caron_table = Inr caron_once
   \<and> clean_text (no_parquet_env caron_table) caron_once = Inr caron_twice
   \<and> col_values caron_once ''BOROUGH'' = [StrV [74, 780, 97]]
   \<and> col_values caron_twice ''BOROUGH'' = [StrV [74, 780, 65]]
   \<and> caron_twice \<noteq> caron_once"
proof -
  have a: "clean_text (no_parquet_env caron_table) caron_table = Inr caron_once" by code_simp
  have b: "clean_text (no_parquet_env caron_table) caron_once = Inr caron_twice" by code_simp
  have c: "col_values caron_once ''BOROUGH'' = [StrV [74, 780, 97]]" by code_simp
  have d: "col_values caron_twice ''BOROUGH'' = [StrV [74, 780, 65]]" by code_simp
  have "col_values caron_twice ''BOROUGH'' \<noteq> col_values caron_once ''BOROUGH''"
    unfolding c d by simp
  then have e: "caron_twice \<noteq> caron_once" by auto
  show ?thesis by (intro conjI a b c d e)
qed

subsection \<open>The scenario, stage by stage\<close>

lemma scenario_typed_eq:
  "correct_types (no_parquet_env scenario) (handle_missing_values scenario) = Inr scenario_typed"
  by code_simp

lemma scenario_clean_eq: "clean_text (no_parquet_env scenario) scenario_typed = Inr scenario_clean"
  by code_simp

theorem clean_text_idempotent_when_titles_fixed_witness:
  "clean_text (no_parquet_env scenario) scenario_typed = Inr scenario_clean
   \<and> col_values scenario_clean ''BOROUGH'' = [Str ''Brooklyn'', Str ''Queens'']
   \<and> strip (text_of ''Brooklyn'') = text_of ''Brooklyn''
   \<and> strip (text_of ''Queens'') = text_of ''Queens''
   \<and> py_title (no_parquet_env scenario) (text_of ''Brooklyn'') = text_of ''Brooklyn''
   \<and> py_title (no_parquet_env scenario) (text_of ''Queens'') = text_of ''Queens''
   \<and> clean_text (no_parquet_env scenario) scenario_clean = Inr scenario_clean"
proof -
  let ?E = "no_parquet_env scenario"
  have b: "col_values scenario_clean ''BOROUGH'' = [Str ''Brooklyn'', Str ''Queens'']"
    by code_simp
  have s1: "strip (text_of ''Brooklyn'') = text_of ''Brooklyn''" by code_simp
  have s2: "strip (text_of ''Queens'') = text_of ''Queens''" by code_simp
  have t1: "py_title ?E (text_of ''Brooklyn'') = text_of ''Brooklyn''" by code_simp
  have t2: "py_title ?E (text_of ''Queens'') = text_of ''Queens''" by code_simp
  have S: "\<forall>t. StrV t \<in> set (col_values scenario_clean ''BOROUGH'') \<longrightarrow>
              (strippable scenario_clean ''BOROUGH'' \<longrightarrow> strip t = t) \<and> py_title ?E t = t"
    unfolding b using s1 s2 t1 t2 by auto
  have i: "clean_text ?E scenario_clean = Inr scenario_clean"
    using clean_text_idempotent_when_titles_fixed [OF scenario_clean_eq, THEN conjunct1] S
    by (rule mp)
  show ?thesis by (intro conjI scenario_clean_eq b s1 s2 t1 t2 i)
qed

lemma scenario_year_eq:
  "map_sum id fst (filter_and_group (no_parquet_env scenario) scenario_clean ''outputs'' empty_world) = Inr scenario_year"
  by code_simp

subsection \<open>Stage 3: the columns that are not converted\<close>

lemma fold_cols_frame:
  assumes "\<And>c d. c \<in> set cs \<Longrightarrow> has_col d c \<Longrightarrow> col_names (op c d) = col_names d"
    and "\<And>c d. c \<in> set cs \<Longrightarrow> col_values (op c d) k = col_values d k"
    and "set cs \<subseteq> set (col_names d)"
  shows "col_names (fold op cs d) = col_names d \<and> col_values (fold op cs d) k = col_values d k"
  using assms
proof (induction cs arbitrary: d)
  case Nil
  then show ?case by simp
next
  case (Cons a cs)
  have n: "col_names (op a d) = col_names d"
    using Cons.prems(1)[of a d] Cons.prems(3) by (simp add: has_col_def)
  have v: "col_values (op a d) k = col_values d k" using Cons.prems(2)[of a d] by simp
  have "col_names (fold op cs (op a d)) = col_names (op a d)
        \<and> col_values (fold op cs (op a d)) k = col_values (op a d) k"
    using Cons.prems by (intro Cons.IH) (simp_all add: n)
  then show ?case by (simp add: n v)
qed

lemma col_names_assign_col_existing:
  "has_col df c \<Longrightarrow> col_names (assign_col df c dt f) = col_names df"
  by (simp add: col_names_assign_col has_col_def)

lemma col_values_assign_col_other:
  "k \<noteq> c \<Longrightarrow> col_values (assign_col df c dt f) k = col_values df k"
  by (simp add: col_values_assign_col)

lemma injuries_to_Int64_frame:
  "injuries_to_Int64 pd cs d = Inr d' \<Longrightarrow> set cs \<subseteq> set (col_names d) \<Longrightarrow> k \<notin> set cs
   \<Longrightarrow> col_names d' = col_names d \<and> col_values d' k = col_values d k"
proof (induction cs arbitrary: d)
  case Nil
  then show ?case by simp
next
  case (Cons a cs)
  from Cons.prems(1) obtain d1 where a: "astype_Int64 pd d a = Inr d1"
    and rest: "injuries_to_Int64 pd cs d1 = Inr d'"
    by (auto split: sum.splits)
  from a have d1: "d1 = assign_col d a D_Int64 (\<lambda>r. cast_Int64 (to_numeric_cell pd (get_cell r a)))"
    by (auto simp: astype_Int64_def split: if_splits)
  have n: "col_names d1 = col_names d"
    using Cons.prems(2) by (simp add: d1 col_names_assign_col_existing has_col_def)
  have v: "col_values d1 k = col_values d k"
    using Cons.prems(3) by (simp add: d1 col_values_assign_col_other)
  have "col_names d' = col_names d1 \<and> col_values d' k = col_values d1 k"
    using rest Cons.prems by (intro Cons.IH) (simp_all add: n)
  then show ?case by (simp add: n v)
qed

lemma correct_types_frame:
  assumes ct: "correct_types pd d = Inr d'"
    and k: "k \<notin> set DATE_COLS \<union> set TIME_COLS \<union> set INJURY_COLS \<union> {''BOROUGH''}"
  shows "col_names d' = col_names d" and "col_values d' k = col_values d k"
proof -
  define d1 where "d1 = fold (\<lambda>c d. to_datetime_col pd d c) (ensure_columns_exist d DATE_COLS) d"
  define d2 where "d2 = fold (\<lambda>c d. to_time_col pd d c) (ensure_columns_exist d1 TIME_COLS) d1"
  from ct obtain d3 where i: "injuries_to_Int64 pd (ensure_columns_exist d2 INJURY_COLS) d2 = Inr d3"
    and e: "d' = (if ''BOROUGH'' \<in> set (col_names d3) then astype_category d3 ''BOROUGH'' else d3)"
    by (auto simp: correct_types_def Let_def d1_def d2_def split: sum.splits)
  have 1: "col_names d1 = col_names d \<and> col_values d1 k = col_values d k"
    unfolding d1_def
  proof (rule fold_cols_frame)
    show "set (ensure_columns_exist d DATE_COLS) \<subseteq> set (col_names d)"
      by (rule ensure_columns_exist_subset)
  next
    fix c x assume "has_col x c"
    then show "col_names (to_datetime_col pd x c) = col_names x"
      by (simp add: to_datetime_col_def Let_def col_names_assign_col_existing)
  next
    fix c x assume "c \<in> set (ensure_columns_exist d DATE_COLS)"
    then have "k \<noteq> c" using k by (auto simp: set_ensure_columns_exist)
    then show "col_values (to_datetime_col pd x c) k = col_values x k"
      by (simp add: to_datetime_col_def Let_def col_values_assign_col_other)
  qed
  have 2: "col_names d2 = col_names d1 \<and> col_values d2 k = col_values d1 k"
    unfolding d2_def
  proof (rule fold_cols_frame)
    show "set (ensure_columns_exist d1 TIME_COLS) \<subseteq> set (col_names d1)"
      by (rule ensure_columns_exist_subset)
  next
    fix c x assume "has_col x c"
    then show "col_names (to_time_col pd x c) = col_names x"
      by (simp add: to_time_col_def col_names_assign_col_existing)
  next
    fix c x assume "c \<in> set (ensure_columns_exist d1 TIME_COLS)"
    then have "k \<noteq> c" using k by (auto simp: set_ensure_columns_exist)
    then show "col_values (to_time_col pd x c) k = col_values x k"
      by (simp add: to_time_col_def col_values_assign_col_other)
  qed
  have 3: "col_names d3 = col_names d2 \<and> col_values d3 k = col_values d2 k"
    using i
  proof (rule injuries_to_Int64_frame)
    show "set (ensure_columns_exist d2 INJURY_COLS) \<subseteq> set (col_names d2)"
      by (rule ensure_columns_exist_subset)
    show "k \<notin> set (ensure_columns_exist d2 INJURY_COLS)"
      using k by (auto simp: set_ensure_columns_exist)
  qed
  have kb: "k \<noteq> ''BOROUGH''" using k by simp
  have 4: "col_names d' = col_names d3 \<and> col_values d' k = col_values d3 k"
    using kb
    by (simp add: e astype_category_def col_names_assign_col_existing has_col_def
        col_values_assign_col_other)
  show "col_names d' = col_names d" using 1 2 3 4 by simp
  show "col_values d' k = col_values d k" using 1 2 3 4 by simp
qed

subsection \<open>The first contributing factor through stages 2 to 4\<close>

lemma F1_not_converted:
  "''CONTRIBUTING FACTOR VEHICLE 1''
     \<notin> set DATE_COLS \<union> set TIME_COLS \<union> set INJURY_COLS \<union> {''BOROUGH''}"
  by (simp add: DATE_COLS_def TIME_COLS_def INJURY_COLS_def)

lemma F1_in_FACTOR_COLS: "''CONTRIBUTING FACTOR VEHICLE 1'' \<in> set FACTOR_COLS"
  by (simp add: FACTOR_COLS_def)

lemma strip_cell_Unknown: "strip_cell pd (Str ''Unknown'') = Str ''Unknown''"
  by (simp add: strip_cell_def strip_Unknown)

lemma strip_cell_Unspecified: "strip_cell pd (Str ''Unspecified'') = Str ''Unspecified''"
  by (simp add: strip_cell_def strip_Unspecified)

text \<open>
  Claim C10. Let the source table have the first contributing-factor column and let
  stages 2 to 4 return. The rows of the cleaned table are the source rows that keep
  their place in stage 2, in order; where the source cell of that column is null the
  cleaned cell is the text \<open>Unknown\<close>, and where the source cell is \<open>Unspecified\<close> the
  cleaned cell is null.
\<close>

theorem unknown_fill_before_sentinel:
  assumes "has_col df ''CONTRIBUTING FACTOR VEHICLE 1''"
    and "correct_types pd (handle_missing_values df) = Inr d2"
    and "clean_text pd d2 = Inr d3"
  shows "list_all2 (\<lambda>v v'. (v = NA \<longrightarrow> v' = Str ''Unknown'')
                           \<and> (v = Str ''Unspecified'' \<longrightarrow> v' = NA))
           (map (\<lambda>r. get_cell r ''CONTRIBUTING FACTOR VEHICLE 1'') (filter (hmv_keep df) (rows df)))
           (col_values d3 ''CONTRIBUTING FACTOR VEHICLE 1'')"
proof -
  let ?F = "''CONTRIBUTING FACTOR VEHICLE 1''"
  have h2: "has_col d2 ?F"
    using assms(1) correct_types_frame(1)[OF assms(2) F1_not_converted]
    by (simp add: has_col_def col_names_handle_missing_values)
  have v2: "col_values d2 ?F = map (\<lambda>r. hmv_cell df ?F (get_cell r ?F)) (filter (hmv_keep df) (rows df))"
    using correct_types_frame(2)[OF assms(2) F1_not_converted]
    by (simp add: col_values_handle_missing_values)
  have v3: "col_values d3 ?F = map (clean_cell pd d2 ?F) (col_values d2 ?F)"
    using assms(3) by (rule col_values_clean_text)
  have a: "clean_cell pd d2 ?F (hmv_cell df ?F NA) = Str ''Unknown''"
    using assms(1)
    by (simp add: clean_cell_factor[OF F1_in_FACTOR_COLS h2] hmv_cell_def strip_cell_Unknown
        replace_cell_def)
  have b: "clean_cell pd d2 ?F (hmv_cell df ?F (Str ''Unspecified'')) = NA"
    by (simp add: clean_cell_factor[OF F1_in_FACTOR_COLS h2] hmv_cell_def strip_cell_Unspecified
        replace_cell_def F1_not_injury)
  show ?thesis
    unfolding v3 v2 by (auto simp: list_all2_map1 list_all2_map2 a b intro!: list_all2_refl)
qed

theorem unknown_fill_before_sentinel_witness:
  "has_col scenario ''CONTRIBUTING FACTOR VEHICLE 1''
   \<and> correct_types (no_parquet_env scenario) (handle_missing_values scenario) = Inr scenario_typed
   \<and> clean_text (no_parquet_env scenario) scenario_typed = Inr scenario_clean
   \<and> map (\<lambda>r. get_cell r ''CONTRIBUTING FACTOR VEHICLE 1'') (filter (hmv_keep scenario) (rows scenario))
       = [Str ''Unspecified'', NA]
   \<and> col_values scenario_clean ''CONTRIBUTING FACTOR VEHICLE 1'' = [NA, Str ''Unknown'']"
proof -
  have a: "has_col scenario ''CONTRIBUTING FACTOR VEHICLE 1''" by code_simp
  have b: "map (\<lambda>r. get_cell r ''CONTRIBUTING FACTOR VEHICLE 1'')
             (filter (hmv_keep scenario) (rows scenario)) = [Str ''Unspecified'', NA]"
    by code_simp
  have c: "col_values scenario_clean ''CONTRIBUTING FACTOR VEHICLE 1'' = [NA, Str ''Unknown'']"
    by code_simp
  show ?thesis
    using unknown_fill_before_sentinel [OF a scenario_typed_eq scenario_clean_eq]
      a b c scenario_typed_eq scenario_clean_eq
    by simp
qed


subsection \<open>Stages 5 and 6 as lists of writes\<close>

lemma apply_updates_Nil: "apply_updates [] [] w = w"
  by (simp add: apply_updates_def)

lemma write_file_as_update: "write_file w p a = apply_updates [(p, a)] [] w"
  by (simp add: apply_updates_def write_file_def)

lemma print_msg_as_update: "print_msg w m = apply_updates [] [m] w"
  by (simp add: apply_updates_def print_msg_def)

lemma apply_updates_apply_updates:
  "apply_updates us' ms' (apply_updates us ms w) = apply_updates (us @ us') (ms @ ms') w"
  by (simp add: apply_updates_def)

lemma if_apply_updates:
  "(if b then apply_updates us ms w else w) = apply_updates (if b then us else []) (if b then ms else []) w"
  by (simp add: apply_updates_Nil)

lemma corr_eq:
  "corr df cs = (if \<forall>c \<in> set cs. is_numeric_col df c then Inr (CsvCorr (select_cols df cs))
                 else Inl (ValueError ''could not convert string to float''))"
  by (simp add: corr_def)

lemma filter_and_group_eq:
  "filter_and_group pd df outdir w =
     (case fg_table df of
        Inl e \<Rightarrow> Inl e
      | Inr df1 \<Rightarrow>
          (if \<forall>c \<in> set (ensure_columns_exist df1 INJURY_COLS). is_numeric_col df1 c
           then Inr (df1, apply_updates (fg_updates pd df1 outdir) (fg_msgs df) w)
           else Inl (ValueError ''could not convert string to float'')))"
proof (cases "fg_table df")
  case (Inl e)
  then show ?thesis by (simp add: filter_and_group_def fg_table_def Let_def)
next
  case (Inr df1)
  have w: "(if ''BOROUGH'' \<in> set (col_names df)
            then print_msg w (ManhattanCount
                   (length (filter (\<lambda>r. get_cell r ''BOROUGH'' = Str ''Manhattan'') (rows df))))
            else w) = apply_updates [] (fg_msgs df) w"
    by (simp add: fg_msgs_def print_msg_as_update apply_updates_Nil)
  show ?thesis
    unfolding filter_and_group_def Let_def w fg_table_def[symmetric] Inr
    by (simp add: corr_def write_file_as_update apply_updates_apply_updates fg_updates_def
        apply_updates_Nil)
qed

lemma idxmax_nonempty: "xs \<noteq> [] \<Longrightarrow> idxmax xs = Inr (idxmax_from (hd xs) (tl xs))"
  by (cases xs) (simp_all add: idxmax_def)

lemma statistical_summaries_eq:
  "statistical_summaries df outdir w =
     (case ss_error df of
        Some e \<Rightarrow> Inl e
      | None \<Rightarrow> Inr (apply_updates (ss_updates df outdir) (ss_msgs df) w))"
  unfolding statistical_summaries_def Let_def
  by (simp add: ss_error_def ss_updates_def ss_msgs_def mean_col_def idxmax_nonempty
      write_file_as_update print_msg_as_update apply_updates_apply_updates apply_updates_Nil)


subsection \<open>Ranking and maximum of a count series\<close>

lemma set_insert_key: "set (insert_key k xs) = insert k (set xs)"
  by (induction xs) auto

lemma set_sort_keys: "set (sort_keys ks) = set ks"
  by (induction ks) (simp_all add: sort_keys_def set_insert_key)

lemma groupby_size_Nil_iff: "groupby_size df c = [] \<longleftrightarrow> (\<forall>v \<in> set (col_values df c). v = NA)"
proof -
  have "groupby_size df c = [] \<longleftrightarrow> set (sort_keys (remdups (filter (\<lambda>v. v \<noteq> NA) (col_values df c)))) = {}"
    by (simp add: groupby_size_def Let_def)
  then show ?thesis by (auto simp: set_sort_keys)
qed

lemma groupby_size_cong: "col_values d c = col_values d' c \<Longrightarrow> groupby_size d c = groupby_size d' c"
  by (simp add: groupby_size_def)

subsection \<open>The table and the files of stage 5\<close>

lemma fold_updates_lookup:
  "fold (\<lambda>(p, a) f. f(p \<mapsto> a)) us f p =
     (case map_of (rev us) p of Some a \<Rightarrow> Some a | None \<Rightarrow> f p)"
  by (induction us arbitrary: f) (auto simp: map_add_def split: option.splits)

lemma dt_year_Inr:
  assumes "dt_year df src dst = Inr d"
  shows "\<exists>dt f. d = assign_col df dst dt f"
  using assms by (auto simp: dt_year_def split: if_splits)

lemma fg_table_frame:
  assumes "fg_table df = Inr df'" and "k \<noteq> ''YEAR''"
  shows "col_values df' k = col_values df k" and "dtype_of df' k = dtype_of df k"
    and "has_col df' k = has_col df k"
  using assms
  by (auto simp: fg_table_def col_values_assign_col dtype_of_assign_col has_col_assign_col
      split: if_splits dest!: dt_year_Inr)

lemma filter_and_group_Inr:
  assumes "filter_and_group pd df outdir w = Inr (df', w')"
  shows "fg_table df = Inr df'" and "w' = apply_updates (fg_updates pd df' outdir) (fg_msgs df) w"
  using assms by (auto simp: filter_and_group_eq split: sum.splits if_splits)

lemma statistical_summaries_Inr:
  assumes "statistical_summaries df outdir w = Inr w'"
  shows "w' = apply_updates (ss_updates df outdir) (ss_msgs df) w"
  using assms by (auto simp: statistical_summaries_eq split: option.splits)

lemma files_by_borough:
  "''BOROUGH'' \<in> set (col_names df1) \<Longrightarrow>
   files (apply_updates (fg_updates pd df1 outdir) ms w) (outdir, ''collisions_by_borough.csv'')
     = Some (CsvCounts (sort_values_desc pd (groupby_size df1 ''BOROUGH'')))"
  by (simp add: apply_updates_def fold_updates_lookup fg_updates_def)

lemma most_crashes_of_ss_msgs:
  "most_crashes_of (ss_msgs df) =
     (if ''BOROUGH'' \<in> set (col_names df) \<and> groupby_size df ''BOROUGH'' \<noteq> []
      then [idxmax_from (hd (groupby_size df ''BOROUGH'')) (tl (groupby_size df ''BOROUGH''))]
      else [])"
  by (simp add: most_crashes_of_def ss_msgs_def)

lemma sort_values_desc_set:
  assumes "argsort_ok pd (map snd (rev xs))"
  shows "set (sort_values_desc pd xs) = set xs"
proof -
  have s: "set (argsort pd (map snd (rev xs))) = {0..<length (rev xs)}"
    using assms by (simp add: argsort_ok_def)
  have "set (sort_values_desc pd xs) = (\<lambda>i. rev xs ! i) ` {0..<length (rev xs)}"
    by (simp add: sort_values_desc_def Let_def s)
  also have "\<dots> = set (rev xs)"
    by (auto simp: set_conv_nth)
  finally show ?thesis by simp
qed

lemma sort_values_desc_length:
  assumes "argsort_ok pd (map snd (rev xs))"
  shows "length (sort_values_desc pd xs) = length xs"
proof -
  let ?idx = "argsort pd (map snd (rev xs))"
  have "distinct ?idx" and "set ?idx = {0..<length xs}"
    using assms by (simp_all add: argsort_ok_def)
  then have "length ?idx = length xs"
    using distinct_card [of ?idx] by simp
  then show ?thesis by (simp add: sort_values_desc_def Let_def)
qed

lemma sort_values_desc_counts:
  assumes "argsort_ok pd (map snd (rev xs))"
  shows "map snd (sort_values_desc pd xs)
         = rev (map (\<lambda>i. map snd (rev xs) ! i) (argsort pd (map snd (rev xs))))"
proof -
  let ?idx = "argsort pd (map snd (rev xs))"
  have s: "set ?idx = {0..<length (rev xs)}"
    using assms by (simp add: argsort_ok_def)
  have "map snd (map (\<lambda>i. rev xs ! i) ?idx) = map (\<lambda>i. map snd (rev xs) ! i) ?idx"
    unfolding map_map
  proof (rule map_cong [OF refl])
    fix i assume "i \<in> set ?idx"
    then have "i < length (rev xs)" unfolding s by simp
    then show "(snd \<circ> (!) (rev xs)) i = map snd (rev xs) ! i" by (simp add: nth_map)
  qed
  then show ?thesis by (simp add: sort_values_desc_def Let_def rev_map)
qed

lemma sort_values_desc_descending:
  assumes "argsort_ok pd (map snd (rev xs))"
  shows "sorted (rev (map snd (sort_values_desc pd xs)))"
  unfolding sort_values_desc_counts [OF assms] rev_rev_ident
  using assms by (simp add: argsort_ok_def)

lemma sort_values_desc_distinct:
  assumes "argsort_ok pd (map snd (rev xs))" and "distinct (map fst xs)"
  shows "distinct (map fst (sort_values_desc pd xs))"
proof -
  let ?idx = "argsort pd (map snd (rev xs))"
  have d: "distinct ?idx" and s: "set ?idx = {0..<length (rev xs)}"
    using assms(1) by (simp_all add: argsort_ok_def)
  have dk: "distinct (map fst (rev xs))" using assms(2) by (simp add: rev_map [symmetric])
  have e: "map fst (map (\<lambda>i. rev xs ! i) ?idx) = map (\<lambda>i. map fst (rev xs) ! i) ?idx"
    unfolding map_map
  proof (rule map_cong [OF refl])
    fix i assume "i \<in> set ?idx"
    then have "i < length (rev xs)" unfolding s by simp
    then show "(fst \<circ> (!) (rev xs)) i = map fst (rev xs) ! i" by (simp add: nth_map)
  qed
  have dd: "distinct (map (\<lambda>i. map fst (rev xs) ! i) ?idx)"
  proof (rule iffD2 [OF distinct_map], rule conjI [OF d])
    show "inj_on (\<lambda>i. map fst (rev xs) ! i) (set ?idx)"
      unfolding s
    proof (rule inj_onI)
      fix x y assume "x \<in> {0..<length (rev xs)}" and "y \<in> {0..<length (rev xs)}"
        and e: "map fst (rev xs) ! x = map fst (rev xs) ! y"
      then have "x < length (map fst (rev xs))" and "y < length (map fst (rev xs))" by simp_all
      then show "x = y" using nth_eq_iff_index_eq [OF dk] e by blast
    qed
  qed
  have R: "map fst (sort_values_desc pd xs) = rev (map fst (map (\<lambda>i. rev xs ! i) ?idx))"
    by (simp only: sort_values_desc_def Let_def rev_map)
  show ?thesis unfolding R distinct_rev e by (rule dd)
qed

lemma descending_hd_max:
  assumes "sorted (rev ys)" and "y \<in> set ys"
  shows "y \<le> hd (ys :: nat list)"
proof (cases ys)
  case Nil
  then show ?thesis using assms(2) by simp
next
  case (Cons a as)
  then have "sorted (rev as @ [a])" using assms(1) by simp
  then have "\<forall>x \<in> set as. x \<le> a" by (auto simp: sorted_append)
  then show ?thesis using assms(2) Cons by auto
qed

lemma sort_values_desc_hd_max:
  assumes "argsort_ok pd (map snd (rev xs))" and "p \<in> set xs"
  shows "snd p \<le> snd (hd (sort_values_desc pd xs))"
proof -
  let ?R = "sort_values_desc pd xs"
  have ne: "?R \<noteq> []" using sort_values_desc_set [OF assms(1)] assms(2) by auto
  have "snd p \<in> set (map snd ?R)"
    using sort_values_desc_set [OF assms(1)] assms(2) by auto
  then have "snd p \<le> hd (map snd ?R)"
    by (rule descending_hd_max [OF sort_values_desc_descending [OF assms(1)]])
  then show ?thesis using ne by (simp add: hd_map)
qed

lemma idxmax_from_first_max:
  assumes "\<forall>q \<in> set (b # xs). snd q \<le> m" and "\<exists>q \<in> set (b # xs). snd q = m"
  shows "idxmax_from b xs = fst (hd (filter (\<lambda>p. snd p = m) (b # xs)))"
  using assms
proof (induction xs arbitrary: b)
  case Nil
  then show ?case by simp
next
  case (Cons x xs)
  let ?b = "if snd b < snd x then x else b"
  have 1: "\<forall>q \<in> set (?b # xs). snd q \<le> m" using Cons.prems(1) by auto
  have 2: "\<exists>q \<in> set (?b # xs). snd q = m"
  proof -
    from Cons.prems(2) obtain q where q: "q \<in> set (b # x # xs)" "snd q = m" by blast
    have bm: "snd b \<le> m" and xm: "snd x \<le> m" using Cons.prems(1) by auto
    show ?thesis
    proof (cases "q \<in> set xs")
      case True
      then show ?thesis using q(2) by auto
    next
      case False
      then have "q = b \<or> q = x" using q(1) by auto
      then show ?thesis using q(2) bm xm by auto
    qed
  qed
  have "idxmax_from b (x # xs) = fst (hd (filter (\<lambda>p. snd p = m) (?b # xs)))"
    using Cons.IH [OF 1 2] by simp
  also have "\<dots> = fst (hd (filter (\<lambda>p. snd p = m) (b # x # xs)))"
    using Cons.prems(1) by auto
  finally show ?case .
qed

lemma distinct_insert_key: "distinct (insert_key k xs) \<longleftrightarrow> k \<notin> set xs \<and> distinct xs"
  by (induction xs) (auto simp: set_insert_key)

lemma distinct_sort_keys: "distinct ks \<Longrightarrow> distinct (sort_keys ks)"
  by (induction ks) (simp_all add: sort_keys_def distinct_insert_key set_sort_keys [unfolded sort_keys_def])

lemma count_list_filter_neq:
  "k \<noteq> a \<Longrightarrow> count_list (filter (\<lambda>v. v \<noteq> a) vs) k = count_list vs k"
  by (induction vs) auto

lemma count_list_map_filter:
  "count_list (map f xs) k = length (filter (\<lambda>x. f x = k) xs)"
  by (induction xs) auto

lemma in_set_count_list: "k \<in> set vs \<longleftrightarrow> 0 < count_list vs k"
  by (induction vs) auto

lemma groupby_size_keys: "distinct (map fst (groupby_size df c))"
  by (simp add: groupby_size_def Let_def o_def distinct_sort_keys)

lemma groupby_size_entry:
  "(k, n) \<in> set (groupby_size df c) \<longleftrightarrow>
     k \<noteq> NA \<and> n = length (filter (\<lambda>r. get_cell r c = k) (rows df)) \<and> 0 < n"
proof -
  have c: "count_list (col_values df c) k = length (filter (\<lambda>r. get_cell r c = k) (rows df))"
    by (simp add: col_values_def count_list_map_filter)
  have m: "k \<in> set (col_values df c) \<longleftrightarrow> 0 < count_list (col_values df c) k"
    by (rule in_set_count_list)
  have "(k, n) \<in> set (groupby_size df c) \<longleftrightarrow>
          k \<noteq> NA \<and> k \<in> set (col_values df c) \<and> n = count_list (col_values df c) k"
    by (auto simp: groupby_size_def Let_def set_sort_keys count_list_filter_neq)
  then show ?thesis unfolding m c by auto
qed

lemma str_le_refl: "str_le s s"
  by (induction s) simp_all

lemma str_le_total: "str_le a b \<or> str_le b a"
  by (induction a b rule: str_le.induct) auto

lemma str_le_trans: "str_le a b \<Longrightarrow> str_le b c \<Longrightarrow> str_le a c"
proof (induction a b arbitrary: c rule: str_le.induct)
  case (1 ys)
  then show ?case by simp
next
  case (2 x xs)
  then show ?case by simp
next
  case (3 x xs y ys)
  then show ?case by (cases c) auto
qed

lemma is_strE: "is_str a \<Longrightarrow> \<exists>s. a = StrV s"
  by (cases a) (simp_all add: is_str_def)

lemma cell_le_StrV: "cell_le (StrV s) (StrV t) = str_le s t"
  by (simp add: cell_le_def)

lemma cell_le_str_refl: "is_str a \<Longrightarrow> cell_le a a"
  by (auto dest!: is_strE simp: cell_le_StrV str_le_refl)

lemma cell_le_str_total: "is_str a \<Longrightarrow> is_str b \<Longrightarrow> cell_le a b \<or> cell_le b a"
proof -
  assume "is_str a" and "is_str b"
  then obtain s t where "a = StrV s" and "b = StrV t" by (auto dest!: is_strE)
  then show ?thesis using str_le_total [of s t] by (simp add: cell_le_StrV)
qed

lemma cell_le_str_trans:
  "is_str a \<Longrightarrow> is_str b \<Longrightarrow> is_str c \<Longrightarrow> cell_le a b \<Longrightarrow> cell_le b c \<Longrightarrow> cell_le a c"
proof -
  assume "is_str a" and "is_str b" and "is_str c" and ab: "cell_le a b" and bc: "cell_le b c"
  then obtain s t u where e: "a = StrV s" "b = StrV t" "c = StrV u" by (auto dest!: is_strE)
  show ?thesis using ab bc str_le_trans [of s t u] unfolding e cell_le_StrV by blast
qed

lemma sorted_insert_key:
  assumes "is_str k" and "\<forall>x \<in> set xs. is_str x" and "sorted_wrt cell_le xs"
  shows "sorted_wrt cell_le (insert_key k xs)"
  using assms
proof (induction xs)
  case Nil
  then show ?case by simp
next
  case (Cons x xs)
  show ?case
  proof (cases "cell_le k x")
    case True
    have "cell_le k y" if "y \<in> set xs" for y
    proof -
      have "cell_le x y" using Cons.prems(3) that by simp
      then show ?thesis
        using cell_le_str_trans [of k x y] True Cons.prems(1,2) that by simp
    qed
    then show ?thesis using True Cons.prems(3) by simp
  next
    case False
    then have xk: "cell_le x k" using cell_le_str_total [of k x] Cons.prems(1,2) by simp
    have "sorted_wrt cell_le (insert_key k xs)" using Cons by simp
    moreover have "\<forall>y \<in> set (insert_key k xs). cell_le x y"
      using xk Cons.prems(3) by (simp add: set_insert_key)
    ultimately show ?thesis using False by simp
  qed
qed

lemma sorted_sort_keys:
  "\<forall>x \<in> set ks. is_str x \<Longrightarrow> sorted_wrt cell_le (sort_keys ks)"
proof (induction ks)
  case Nil
  then show ?case by (simp add: sort_keys_def)
next
  case (Cons k ks)
  have "sorted_wrt cell_le (insert_key k (sort_keys ks))"
  proof (rule sorted_insert_key)
    show "is_str k" using Cons.prems by simp
    show "\<forall>x \<in> set (sort_keys ks). is_str x" using Cons.prems by (simp add: set_sort_keys)
    show "sorted_wrt cell_le (sort_keys ks)" using Cons by simp
  qed
  then show ?case by (simp add: sort_keys_def)
qed

lemma groupby_size_sorted:
  assumes "\<forall>v \<in> set (col_values df c). v = NA \<or> is_str v"
  shows "sorted_wrt cell_le (map fst (groupby_size df c))"
proof -
  have "\<forall>x \<in> set (remdups (filter (\<lambda>v. v \<noteq> NA) (col_values df c))). is_str x"
    using assms by auto
  then have "sorted_wrt cell_le (sort_keys (remdups (filter (\<lambda>v. v \<noteq> NA) (col_values df c))))"
    by (rule sorted_sort_keys)
  then show ?thesis by (simp add: groupby_size_def Let_def o_def)
qed

lemma first_of_filter_least:
  assumes "sorted_wrt R (map fst g)" and "\<forall>p \<in> set g. R (fst p) (fst p)"
    and "q \<in> set (filter P g)"
  shows "R (fst (hd (filter P g))) (fst q)"
  using assms
proof (induction g)
  case Nil
  then show ?case by simp
next
  case (Cons a g)
  show ?case
  proof (cases "P a")
    case True
    then have h: "hd (filter P (a # g)) = a" by simp
    show ?thesis
    proof (cases "q = a")
      case True
      then show ?thesis unfolding h using Cons.prems(2) by simp
    next
      case False
      then have "q \<in> set g" using Cons.prems(3) by (auto split: if_splits)
      then show ?thesis unfolding h using Cons.prems(1) by auto
    qed
  next
    case False
    then have "filter P (a # g) = filter P g" by simp
    moreover have "R (fst (hd (filter P g))) (fst q)"
    proof (rule Cons.IH)
      show "sorted_wrt R (map fst g)" using Cons.prems(1) by simp
      show "\<forall>p \<in> set g. R (fst p) (fst p)" using Cons.prems(2) by simp
      show "q \<in> set (filter P g)" using Cons.prems(3) False by simp
    qed
    ultimately show ?thesis by simp
  qed
qed

lemma groupby_size_first_max_least:
  assumes s: "\<forall>v \<in> set (col_values df c). v = NA \<or> is_str v"
    and k: "k \<in> set (map fst (take 1 (filter (\<lambda>p. snd p = n) (groupby_size df c))))"
    and k': "(k', n) \<in> set (groupby_size df c)"
  shows "cell_le k k'"
proof -
  let ?g = "groupby_size df c"
  let ?f = "filter (\<lambda>p. snd p = n) ?g"
  have q: "(k', n) \<in> set ?f" using k' by simp
  have ne: "?f \<noteq> []"
  proof
    assume "?f = []"
    then have "set ?f = {}" by (simp only: list.set)
    with q show False by (simp only: empty_iff)
  qed
  then have "take 1 ?f = [hd ?f]" by (cases ?f) simp_all
  then have kk: "k = fst (hd ?f)" using k by simp
  have str: "\<forall>p \<in> set ?g. is_str (fst p)"
  proof
    fix p assume "p \<in> set ?g"
    then have "(fst p, snd p) \<in> set ?g" by simp
    then have "fst p \<noteq> NA" and "fst p \<in> set (col_values df c)"
      by (auto simp: groupby_size_def Let_def set_sort_keys)
    then show "is_str (fst p)" using s by auto
  qed
  have r: "\<forall>p \<in> set ?g. cell_le (fst p) (fst p)"
    using str cell_le_str_refl by blast
  have "cell_le (fst (hd ?f)) (fst (k', n))"
    using groupby_size_sorted [OF s] r q by (rule first_of_filter_least)
  then show ?thesis unfolding kk by simp
qed

text \<open>
  Claim C5. The claim says the borough reported as having most crashes is the first
  entry of the ranking. With two boroughs at the maximal count the sort of the ranking
  may put either first, while \<open>idxmax\<close> takes the first of them in key order. What
  holds, when both stages return and \<open>argsort\<close> sorts the counts: the ranking in
  \<open>collisions_by_borough.csv\<close> has one entry for each borough of the table, with the
  number of its rows, in descending order of that number; the borough reported has the
  number of the first entry, and it is the first entry when no other entry has that
  number; when the boroughs are texts, it is the least in code-point order of the
  boroughs with that number; when no row has a borough, nothing is reported and the
  ranking is empty.
\<close>

theorem most_crashes_has_count_of_ranking_head:
  assumes "statistical_summaries df outdir w1 = Inr w1'"
    and "filter_and_group pd df outdir w2 = Inr (df', w2')"
    and "has_col df ''BOROUGH''"
    and "argsort_ok pd (map snd (rev (groupby_size df ''BOROUGH'')))"
  shows "\<exists>ranking.
           files w2' (outdir, ''collisions_by_borough.csv'') = Some (CsvCounts ranking)
         \<and> distinct (map fst ranking)
         \<and> (\<forall>k n. (k, n) \<in> set ranking \<longleftrightarrow>
                k \<noteq> NA \<and> n = length (filter (\<lambda>r. get_cell r ''BOROUGH'' = k) (rows df)) \<and> 0 < n)
         \<and> sorted (rev (map snd ranking))
         \<and> most_crashes_of (drop (length (console w1)) (console w1'))
             = map fst (take 1 (filter (\<lambda>p. snd p = snd (hd ranking)) (groupby_size df ''BOROUGH'')))
         \<and> (\<forall>k \<in> set (most_crashes_of (drop (length (console w1)) (console w1'))).
                (k, snd (hd ranking)) \<in> set ranking)
         \<and> ((\<forall>p \<in> set (tl ranking). snd p < snd (hd ranking)) \<longrightarrow>
                most_crashes_of (drop (length (console w1)) (console w1')) = map fst (take 1 ranking))
         \<and> ((\<forall>r \<in> set (rows df). get_cell r ''BOROUGH'' = NA \<or> is_str (get_cell r ''BOROUGH'')) \<longrightarrow>
              (\<forall>k \<in> set (most_crashes_of (drop (length (console w1)) (console w1'))).
                 \<forall>k'. (k', snd (hd ranking)) \<in> set ranking \<longrightarrow> cell_le k k'))
         \<and> (ranking = [] \<longleftrightarrow> (\<forall>r \<in> set (rows df). get_cell r ''BOROUGH'' = NA))"
proof -
  let ?g = "groupby_size df ''BOROUGH''"
  let ?R = "sort_values_desc pd ?g"
  let ?n = "snd (hd ?R)"
  let ?m = "most_crashes_of (drop (length (console w1)) (console w1'))"
  note ok = assms(4)
  have b: "''BOROUGH'' \<in> set (col_names df)" using assms(3) by (simp add: has_col_def)
  have t: "fg_table df = Inr df'"
    and w2': "w2' = apply_updates (fg_updates pd df' outdir) (fg_msgs df) w2"
    using filter_and_group_Inr[OF assms(2)] by simp_all
  have b': "''BOROUGH'' \<in> set (col_names df')"
    using fg_table_frame(3)[OF t, of "''BOROUGH''"] b by (simp add: has_col_def)
  have g: "groupby_size df' ''BOROUGH'' = ?g"
    by (rule groupby_size_cong) (simp add: fg_table_frame(1)[OF t])
  have 1: "files w2' (outdir, ''collisions_by_borough.csv'') = Some (CsvCounts ?R)"
    unfolding w2' using files_by_borough[OF b'] by (simp add: g)
  have sR: "set ?R = set ?g" by (rule sort_values_desc_set [OF ok])
  have lR: "length ?R = length ?g" by (rule sort_values_desc_length [OF ok])
  have 2: "distinct (map fst ?R)"
    by (rule sort_values_desc_distinct [OF ok groupby_size_keys])
  have 3: "(k, n) \<in> set ?R \<longleftrightarrow>
             k \<noteq> NA \<and> n = length (filter (\<lambda>r. get_cell r ''BOROUGH'' = k) (rows df)) \<and> 0 < n"
    for k n
    unfolding sR by (rule groupby_size_entry)
  have 4: "sorted (rev (map snd ?R))" by (rule sort_values_desc_descending [OF ok])
  have "console w1' = console w1 @ ss_msgs df"
    using statistical_summaries_Inr[OF assms(1)] by (simp add: apply_updates_def)
  then have m: "?m = most_crashes_of (ss_msgs df)" by simp
  have 5: "?m = map fst (take 1 (filter (\<lambda>p. snd p = ?n) ?g))"
  proof (cases "?g = []")
    case True
    then show ?thesis by (simp add: m most_crashes_of_ss_msgs)
  next
    case False
    then obtain x xs where x: "?g = x # xs" by (cases ?g) auto
    have Rne: "?R \<noteq> []" using lR False by auto
    have le: "\<forall>q \<in> set (x # xs). snd q \<le> ?n"
      using sort_values_desc_hd_max [OF ok] unfolding x by blast
    have "hd ?R \<in> set ?R" using Rne by simp
    then have "hd ?R \<in> set ?g" unfolding sR .
    then have ex: "\<exists>q \<in> set (x # xs). snd q = ?n" unfolding x by blast
    have f: "filter (\<lambda>p. snd p = ?n) (x # xs) \<noteq> []"
      using ex by (simp only: filter_empty_conv) blast
    have "?m = [idxmax_from x xs]"
      using b by (simp add: m most_crashes_of_ss_msgs x)
    also have "\<dots> = [fst (hd (filter (\<lambda>p. snd p = ?n) (x # xs)))]"
      by (simp only: idxmax_from_first_max [OF le ex])
    also have "\<dots> = map fst (take 1 (filter (\<lambda>p. snd p = ?n) (x # xs)))"
      using f by (cases "filter (\<lambda>p. snd p = ?n) (x # xs)") simp_all
    finally show ?thesis unfolding x .
  qed
  have 6: "\<forall>k \<in> set ?m. (k, ?n) \<in> set ?R"
  proof
    fix k assume "k \<in> set ?m"
    then have "k \<in> fst ` set (take 1 (filter (\<lambda>p. snd p = ?n) ?g))" unfolding 5 by simp
    then obtain p where "p \<in> set (take 1 (filter (\<lambda>p. snd p = ?n) ?g))" "k = fst p" by blast
    then have "p \<in> set (filter (\<lambda>p. snd p = ?n) ?g)" "k = fst p"
      by (auto dest: in_set_takeD)
    then have pg: "p \<in> set ?g" and "snd p = ?n" and "k = fst p" by simp_all
    then have "p = (k, ?n)" by (simp add: prod_eq_iff)
    with pg have "(k, ?n) \<in> set ?g" by simp
    then show "(k, ?n) \<in> set ?R" unfolding sR .
  qed
  have 7: "?m = map fst (take 1 ?R)" if u: "\<forall>p \<in> set (tl ?R). snd p < ?n"
  proof (cases "?R")
    case Nil
    then have "?g = []" using lR by simp
    then show ?thesis using Nil by (simp add: 5)
  next
    case (Cons h t)
    let ?f = "filter (\<lambda>p. snd p = ?n) ?g"
    have "set ?f = {p \<in> set ?R. snd p = ?n}" unfolding sR by auto
    also have "\<dots> = {h}" using u Cons by auto
    finally have s: "set ?f = {h}" .
    have "?f \<noteq> []"
    proof
      assume "?f = []"
      then have "set ?f = {}" by (simp only: list.set)
      then show False unfolding s by simp
    qed
    then have "hd ?f \<in> set ?f" by (rule hd_in_set)
    then have "hd ?f = h" unfolding s by simp
    then have "take 1 ?f = [h]" using \<open>?f \<noteq> []\<close> by (cases ?f) simp_all
    then show ?thesis unfolding 5 using Cons by simp
  qed
  have 8: "?R = [] \<longleftrightarrow> (\<forall>r \<in> set (rows df). get_cell r ''BOROUGH'' = NA)"
  proof -
    have "?R = [] \<longleftrightarrow> ?g = []" using lR by (metis length_0_conv)
    then show ?thesis by (simp add: groupby_size_Nil_iff col_values_def)
  qed
  have 9: "\<forall>k \<in> set ?m. \<forall>k'. (k', ?n) \<in> set ?R \<longrightarrow> cell_le k k'"
    if s: "\<forall>r \<in> set (rows df). get_cell r ''BOROUGH'' = NA \<or> is_str (get_cell r ''BOROUGH'')"
  proof (intro ballI allI impI)
    fix k k' assume k: "k \<in> set ?m" and k': "(k', ?n) \<in> set ?R"
    have s': "\<forall>v \<in> set (col_values df ''BOROUGH''). v = NA \<or> is_str v"
      using s by (simp add: col_values_def)
    have a: "k \<in> set (map fst (take 1 (filter (\<lambda>p. snd p = ?n) ?g)))" using k unfolding 5 .
    have b: "(k', ?n) \<in> set ?g" using k' unfolding sR .
    show "cell_le k k'" using s' a b by (rule groupby_size_first_max_least)
  qed
  from 1 2 3 4 5 6 7 8 9 show ?thesis by blast
qed

lemma scenario_clean_stats:
  "statistical_summaries scenario_clean ''outputs'' empty_world
     = Inr (apply_updates (ss_updates scenario_clean ''outputs'') (ss_msgs scenario_clean) empty_world)"
proof -
  have "ss_error scenario_clean = None" by code_simp
  then show ?thesis by (simp add: statistical_summaries_eq)
qed

lemma scenario_clean_groups:
  "filter_and_group (no_parquet_env scenario) scenario_clean ''outputs'' empty_world
     = Inr (scenario_year,
            apply_updates (fg_updates (no_parquet_env scenario) scenario_year ''outputs'') (fg_msgs scenario_clean) empty_world)"
proof -
  have 1: "fg_table scenario_clean = Inr scenario_year" by code_simp
  have 2: "\<forall>c \<in> set (ensure_columns_exist scenario_year INJURY_COLS). is_numeric_col scenario_year c"
    by code_simp
  show ?thesis using 2 by (simp add: filter_and_group_eq 1)
qed

lemma no_date_groups:
  assumes "''CRASH_DATE'' \<notin> set (col_names df)"
    and "\<forall>c \<in> set (ensure_columns_exist df INJURY_COLS). is_numeric_col df c"
  shows "filter_and_group pd df outdir w
           = Inr (df, apply_updates (fg_updates pd df outdir) (fg_msgs df) w)"
proof -
  have "fg_table df = Inr df" using assms(1) by (simp add: fg_table_def)
  then show ?thesis using assms(2) by (simp add: filter_and_group_eq)
qed

theorem most_crashes_has_count_of_ranking_head_witness:
  "statistical_summaries majority_table ''outputs'' empty_world
     = Inr (apply_updates (ss_updates majority_table ''outputs'') (ss_msgs majority_table) empty_world)
   \<and> filter_and_group ties_reversed_env majority_table ''outputs'' empty_world
     = Inr (majority_table,
            apply_updates (fg_updates ties_reversed_env majority_table ''outputs'')
              (fg_msgs majority_table) empty_world)
   \<and> has_col majority_table ''BOROUGH''
   \<and> argsort_ok ties_reversed_env (map snd (rev (groupby_size majority_table ''BOROUGH'')))
   \<and> files (apply_updates (fg_updates ties_reversed_env majority_table ''outputs'')
               (fg_msgs majority_table) empty_world)
        (''outputs'', ''collisions_by_borough.csv'')
      = Some (CsvCounts [(Str ''Queens'', 2), (Str ''Manhattan'', 1)])
   \<and> most_crashes_of (console (apply_updates (ss_updates majority_table ''outputs'')
                                   (ss_msgs majority_table) empty_world))
      = [Str ''Queens'']"
proof -
  let ?W1 = "apply_updates (ss_updates majority_table ''outputs'') (ss_msgs majority_table) empty_world"
  let ?W2 = "apply_updates (fg_updates ties_reversed_env majority_table ''outputs'')
              (fg_msgs majority_table) empty_world"
  let ?R = "[(Str ''Queens'', 2), (Str ''Manhattan'', 1 :: nat)]"
  have e: "ss_error majority_table = None" by code_simp
  have a: "statistical_summaries majority_table ''outputs'' empty_world = Inr ?W1"
    using e by (simp add: statistical_summaries_eq)
  have n1: "''CRASH_DATE'' \<notin> set (col_names majority_table)" by code_simp
  have n2: "\<forall>c \<in> set (ensure_columns_exist majority_table INJURY_COLS). is_numeric_col majority_table c"
    by code_simp
  note b = no_date_groups [OF n1 n2, of ties_reversed_env "''outputs''" empty_world]
  have c: "has_col majority_table ''BOROUGH''" by code_simp
  have d: "argsort_ok ties_reversed_env (map snd (rev (groupby_size majority_table ''BOROUGH'')))"
    by code_simp
  have f: "files ?W2 (''outputs'', ''collisions_by_borough.csv'') = Some (CsvCounts ?R)"
    by code_simp
  have l: "length (console empty_world) = 0" by (simp add: empty_world_def)
  from most_crashes_has_count_of_ranking_head [OF a b c d]
  obtain ranking where r: "files ?W2 (''outputs'', ''collisions_by_borough.csv'') = Some (CsvCounts ranking)"
    and u: "(\<forall>p \<in> set (tl ranking). snd p < snd (hd ranking)) \<longrightarrow>
              most_crashes_of (drop (length (console empty_world)) (console ?W1))
                = map fst (take 1 ranking)"
    by blast
  from r f have "ranking = ?R" by simp
  with u have "most_crashes_of (drop (length (console empty_world)) (console ?W1)) = [Str ''Queens'']"
    by simp
  then have g: "most_crashes_of (console ?W1) = [Str ''Queens'']" unfolding l by simp
  show ?thesis by (intro conjI a b c d f g)
qed

text \<open>
  Two boroughs with two rows each, sorted by a library that puts equal counts in
  descending order of position: the ranking starts with Queens and the borough
  reported is Manhattan.
\<close>

theorem most_crashes_is_not_head_of_ranking:
  "argsort_ok ties_reversed_env (map snd (rev (groupby_size tie_table ''BOROUGH'')))
   \<and> groupby_size tie_table ''BOROUGH'' = [(Str ''Manhattan'', 2), (Str ''Queens'', 2)]
   \<and> (case filter_and_group ties_reversed_env tie_table ''outputs'' empty_world of
         Inl _ \<Rightarrow> False
       | Inr (d, w) \<Rightarrow>
           files w (''outputs'', ''collisions_by_borough.csv'')
             = Some (CsvCounts [(Str ''Queens'', 2), (Str ''Manhattan'', 2)]))
   \<and> (case statistical_summaries tie_table ''outputs'' empty_world of
         Inl _ \<Rightarrow> False
       | Inr w \<Rightarrow> most_crashes_of (console w) = [Str ''Manhattan''])"
  by code_simp

subsection \<open>The pivot\<close>

lemma map_of_map_key: "map_of (map (\<lambda>k. (k, f k)) ks) k = (if k \<in> set ks then Some (f k) else None)"
  by (induction ks) auto

lemma pivot_cell_pivot_table_count:
  "pivot_cell (pivot_table_count df i c v) y b =
     (if y \<noteq> NA \<and> b \<noteq> NA \<and> (\<exists>r \<in> set (rows df). get_cell r i = y \<and> get_cell r c = b)
      then Some (length (filter (\<lambda>r. get_cell r i = y \<and> get_cell r c = b \<and> get_cell r v \<noteq> NA)
                           (rows df)))
      else None)"
proof -
  define rs where "rs = filter (\<lambda>r. get_cell r i \<noteq> NA \<and> get_cell r c \<noteq> NA) (rows df)"
  define cnt where "cnt = (\<lambda>y b. if \<exists>r \<in> set rs. get_cell r i = y \<and> get_cell r c = b
       then Some (length (filter (\<lambda>r. get_cell r i = y \<and> get_cell r c = b \<and> get_cell r v \<noteq> NA) rs))
       else None)"
  define idx where "idx = sort_keys (remdups (map (\<lambda>r. get_cell r i) rs))"
  define cols where "cols = sort_keys (remdups (map (\<lambda>r. get_cell r c) rs))"
  have pv: "pivot_table_count df i c v = map (\<lambda>y. (y, map (\<lambda>b. (b, cnt y b)) cols)) idx"
    unfolding pivot_table_count_def Let_def rs_def cnt_def idx_def cols_def ..
  have si: "set idx = (\<lambda>r. get_cell r i) ` set rs" by (simp add: idx_def set_sort_keys)
  have sc: "set cols = (\<lambda>r. get_cell r c) ` set rs" by (simp add: cols_def set_sort_keys)
  have cell: "pivot_cell (pivot_table_count df i c v) y b =
      (if y \<in> set idx \<and> b \<in> set cols then cnt y b else None)"
    by (simp add: pivot_cell_def pv map_of_map_key)
  have n: "cnt y b = None" if "y \<notin> set idx \<or> b \<notin> set cols"
    using that by (auto simp: cnt_def si sc)
  have cell': "pivot_cell (pivot_table_count df i c v) y b = cnt y b"
    using n by (auto simp: cell)
  have ex: "(\<exists>r \<in> set rs. get_cell r i = y \<and> get_cell r c = b)
        \<longleftrightarrow> y \<noteq> NA \<and> b \<noteq> NA \<and> (\<exists>r \<in> set (rows df). get_cell r i = y \<and> get_cell r c = b)"
    by (auto simp: rs_def)
  have len: "filter (\<lambda>r. get_cell r i = y \<and> get_cell r c = b \<and> get_cell r v \<noteq> NA) rs
      = filter (\<lambda>r. get_cell r i = y \<and> get_cell r c = b \<and> get_cell r v \<noteq> NA) (rows df)"
    if "y \<noteq> NA" "b \<noteq> NA"
    using that unfolding rs_def filter_filter by (intro filter_cong) auto
  show ?thesis unfolding cell' cnt_def ex using len by simp
qed

lemma files_pivot:
  "''YEAR'' \<in> set (col_names df1) \<Longrightarrow> ''BOROUGH'' \<in> set (col_names df1)
   \<Longrightarrow> UNIQUE_KEY_COL \<in> set (col_names df1) \<Longrightarrow>
   files (apply_updates (fg_updates pd df1 outdir) ms w) (outdir, ''pivot_year_borough.csv'')
     = Some (CsvPivot (pivot_table_count df1 ''YEAR'' ''BOROUGH'' UNIQUE_KEY_COL))"
  by (simp add: apply_updates_def fold_updates_lookup fg_updates_def)

lemma distinct_ids_eq_count:
  assumes "distinct (map (\<lambda>r. get_cell r UNIQUE_KEY_COL) (rows df))"
  shows "distinct_ids df y b =
     length (filter (\<lambda>r. get_cell r ''YEAR'' = y \<and> get_cell r ''BOROUGH'' = b
                          \<and> get_cell r UNIQUE_KEY_COL \<noteq> NA) (rows df))"
proof -
  let ?P = "\<lambda>r. get_cell r ''YEAR'' = y \<and> get_cell r ''BOROUGH'' = b"
  let ?k = "\<lambda>r. get_cell r UNIQUE_KEY_COL"
  have "distinct (map ?k (filter ?P (rows df)))" using assms by (rule distinct_map_filter)
  then have "distinct (filter (\<lambda>k. k \<noteq> NA) (map ?k (filter ?P (rows df))))" by simp
  then have "distinct_ids df y b = length (filter (\<lambda>k. k \<noteq> NA) (map ?k (filter ?P (rows df))))"
    by (simp add: distinct_ids_def distinct_remdups_id)
  also have "\<dots> = length (filter (\<lambda>r. ?P r \<and> ?k r \<noteq> NA) (rows df))"
    by (simp add: filter_map o_def conj_commute)
  finally show ?thesis by (simp add: conj_assoc)
qed

text \<open>
  Claim C2, as amended. When \<open>filter_and_group\<close> returns and the identifier, year and
  borough columns are present, the cell of the pivot for a year and a borough that occur
  together in a row is the number of rows with that year and borough whose identifier
  is non-null, and the cell of any other pair is empty. When the identifiers of the
  table are pairwise distinct, that number is the number of distinct identifier values.
\<close>

theorem pivot_counts_rows_with_identifier:
  assumes "filter_and_group pd df outdir w = Inr (df', w')"
    and "has_col df' ''YEAR''" and "has_col df' ''BOROUGH''" and "has_col df' UNIQUE_KEY_COL"
  shows "\<exists>pv. files w' (outdir, ''pivot_year_borough.csv'') = Some (CsvPivot pv)
     \<and> (\<forall>y b. pivot_cell pv y b =
           (if y \<noteq> NA \<and> b \<noteq> NA
               \<and> (\<exists>r \<in> set (rows df'). get_cell r ''YEAR'' = y \<and> get_cell r ''BOROUGH'' = b)
            then Some (length (filter (\<lambda>r. get_cell r ''YEAR'' = y \<and> get_cell r ''BOROUGH'' = b
                                          \<and> get_cell r UNIQUE_KEY_COL \<noteq> NA) (rows df')))
            else None))
     \<and> (distinct (map (\<lambda>r. get_cell r UNIQUE_KEY_COL) (rows df')) \<longrightarrow>
          (\<forall>y b. y \<noteq> NA \<and> b \<noteq> NA
               \<and> (\<exists>r \<in> set (rows df'). get_cell r ''YEAR'' = y \<and> get_cell r ''BOROUGH'' = b)
             \<longrightarrow> pivot_cell pv y b = Some (distinct_ids df' y b)))"
proof -
  let ?pv = "pivot_table_count df' ''YEAR'' ''BOROUGH'' UNIQUE_KEY_COL"
  have w': "w' = apply_updates (fg_updates pd df' outdir) (fg_msgs df) w"
    using filter_and_group_Inr(2)[OF assms(1)] .
  have 1: "files w' (outdir, ''pivot_year_borough.csv'') = Some (CsvPivot ?pv)"
    unfolding w' using assms(2-4) by (intro files_pivot) (simp_all add: has_col_def)
  have 2: "\<forall>y b. pivot_cell ?pv y b =
           (if y \<noteq> NA \<and> b \<noteq> NA
               \<and> (\<exists>r \<in> set (rows df'). get_cell r ''YEAR'' = y \<and> get_cell r ''BOROUGH'' = b)
            then Some (length (filter (\<lambda>r. get_cell r ''YEAR'' = y \<and> get_cell r ''BOROUGH'' = b
                                          \<and> get_cell r UNIQUE_KEY_COL \<noteq> NA) (rows df')))
            else None)"
    by (simp only: pivot_cell_pivot_table_count) simp
  have 3: "\<forall>y b. y \<noteq> NA \<and> b \<noteq> NA
               \<and> (\<exists>r \<in> set (rows df'). get_cell r ''YEAR'' = y \<and> get_cell r ''BOROUGH'' = b)
             \<longrightarrow> pivot_cell ?pv y b = Some (distinct_ids df' y b)"
    if "distinct (map (\<lambda>r. get_cell r UNIQUE_KEY_COL) (rows df'))"
    by (simp only: pivot_cell_pivot_table_count distinct_ids_eq_count[OF that]) simp
  from 1 2 3 show ?thesis by blast
qed

theorem pivot_counts_rows_with_identifier_witness:
  "filter_and_group (no_parquet_env scenario) scenario_clean ''outputs'' empty_world
     = Inr (scenario_year,
            apply_updates (fg_updates (no_parquet_env scenario) scenario_year ''outputs'') (fg_msgs scenario_clean) empty_world)
   \<and> has_col scenario_year ''YEAR'' \<and> has_col scenario_year ''BOROUGH''
   \<and> has_col scenario_year UNIQUE_KEY_COL
   \<and> distinct (map (\<lambda>r. get_cell r UNIQUE_KEY_COL) (rows scenario_year))
   \<and> files (apply_updates (fg_updates (no_parquet_env scenario) scenario_year ''outputs'') (fg_msgs scenario_clean) empty_world)
        (''outputs'', ''pivot_year_borough.csv'')
      = Some (CsvPivot [(IntV 2021, [(Str ''Brooklyn'', Some 1), (Str ''Queens'', Some 1)])])
   \<and> distinct_ids scenario_year (IntV 2021) (Str ''Brooklyn'') = 1"
proof -
  have a: "has_col scenario_year ''YEAR''" by code_simp
  have b: "has_col scenario_year ''BOROUGH''" by code_simp
  have c: "has_col scenario_year UNIQUE_KEY_COL" by code_simp
  have d: "distinct (map (\<lambda>r. get_cell r UNIQUE_KEY_COL) (rows scenario_year))" by code_simp
  have e: "files (apply_updates (fg_updates (no_parquet_env scenario) scenario_year ''outputs'') (fg_msgs scenario_clean) empty_world)
        (''outputs'', ''pivot_year_borough.csv'')
      = Some (CsvPivot [(IntV 2021, [(Str ''Brooklyn'', Some 1), (Str ''Queens'', Some 1)])])"
    by code_simp
  have f: "distinct_ids scenario_year (IntV 2021) (Str ''Brooklyn'') = 1" by code_simp
  show ?thesis
    using pivot_counts_rows_with_identifier [OF scenario_clean_groups a b c]
      scenario_clean_groups a b c d e f
    by blast
qed

text \<open>
  The claim as stated fails on a source file in which two records carry the same key:
  the pivot cell of their year and borough is 2, the number of distinct identifier
  values is 1.
\<close>

theorem pivot_counts_duplicate_keys_twice:
  "(case main (no_parquet_env duplicate_key_raw) ''crashes.csv'' ''outputs'' empty_world of
      Inl _ \<Rightarrow> False
    | Inr w \<Rightarrow>
       (case files w (''outputs'', ''pivot_year_borough.csv'') of
          Some (CsvPivot pv) \<Rightarrow>
            (case files w (''outputs'', ''collisions_clean.json'') of
               Some (JsonLines d) \<Rightarrow>
                   pivot_cell pv (IntV 2021) (Str ''Queens'') = Some 2
                 \<and> distinct_ids d (IntV 2021) (Str ''Queens'') = 1
                 \<and> col_values d UNIQUE_KEY_COL = [IntV 7, IntV 7]
             | _ \<Rightarrow> False)
        | _ \<Rightarrow> False))"
  by code_simp


subsection \<open>Stage 7 and the exit code\<close>

lemma to_numeric_cell_parquet [simp]:
  "to_numeric_cell (pd\<lparr>to_parquet := f\<rparr>) = to_numeric_cell pd"
  by (simp add: fun_eq_iff to_numeric_cell_def cong: cell.case_cong)

lemma astype_Int64_parquet [simp]: "astype_Int64 (pd\<lparr>to_parquet := f\<rparr>) = astype_Int64 pd"
  by (simp add: fun_eq_iff astype_Int64_def)

lemma injuries_to_Int64_parquet [simp]:
  "injuries_to_Int64 (pd\<lparr>to_parquet := f\<rparr>) cs d = injuries_to_Int64 pd cs d"
  by (induction cs arbitrary: d) (simp_all split: sum.splits)

lemma to_datetime_col_parquet [simp]: "to_datetime_col (pd\<lparr>to_parquet := f\<rparr>) = to_datetime_col pd"
  by (simp add: fun_eq_iff to_datetime_col_def cong: cell.case_cong)

lemma to_time_col_parquet [simp]: "to_time_col (pd\<lparr>to_parquet := f\<rparr>) = to_time_col pd"
  by (simp add: fun_eq_iff to_time_col_def cong: cell.case_cong)

lemma correct_types_parquet: "correct_types (pd\<lparr>to_parquet := f\<rparr>) d = correct_types pd d"
  by (simp add: correct_types_def)

lemma strip_cell_parquet [simp]: "strip_cell (pd\<lparr>to_parquet := f\<rparr>) = strip_cell pd"
  by (simp add: fun_eq_iff strip_cell_def cong: cell.case_cong)

lemma strip_col_parquet [simp]: "strip_col (pd\<lparr>to_parquet := f\<rparr>) = strip_col pd"
  by (simp add: fun_eq_iff strip_col_def)

lemma title_cell_parquet [simp]: "title_cell (pd\<lparr>to_parquet := f\<rparr>) = title_cell pd"
  by (simp add: fun_eq_iff title_cell_def cong: cell.case_cong)

lemma str_title_parquet: "str_title (pd\<lparr>to_parquet := f\<rparr>) = str_title pd"
  unfolding fun_eq_iff str_title_def title_cell_parquet by simp

lemma clean_text_parquet: "clean_text (pd\<lparr>to_parquet := f\<rparr>) d = clean_text pd d"
  unfolding clean_text_def str_title_parquet strip_col_parquet ..

lemma sort_values_desc_parquet: "sort_values_desc (pd\<lparr>to_parquet := f\<rparr>) = sort_values_desc pd"
  by (simp add: fun_eq_iff sort_values_desc_def)

lemma filter_and_group_parquet:
  "filter_and_group (pd\<lparr>to_parquet := f\<rparr>) df outdir w = filter_and_group pd df outdir w"
  unfolding filter_and_group_def sort_values_desc_parquet ..

lemma load_raw_parquet: "load_raw (pd\<lparr>to_parquet := f\<rparr>) p w = load_raw pd p w"
  by (simp add: load_raw_def)

lemma export_raw_and_clean_isl:
  "isl (export_raw_and_clean pd csv clean outdir w) \<longleftrightarrow>
     (case read_csv pd csv of
        Inl _ \<Rightarrow> True
      | Inr raw \<Rightarrow> to_json pd raw (outdir, ''collisions_raw.json'') \<noteq> None
                  \<or> to_json pd clean (outdir, ''collisions_clean.json'') \<noteq> None)"
  by (auto simp: export_raw_and_clean_def Let_def split: sum.splits option.splits)

lemma exit_code_isl: "exit_code r = (if isl r then 1 else 0)"
  by (cases r) (simp_all add: exit_code_def)

lemma main_isl:
  "isl (main pd csv outdir w) \<longleftrightarrow>
     (case load_raw pd csv w of
        Inl _ \<Rightarrow> True
      | Inr (df, w1) \<Rightarrow>
         (case correct_types pd (handle_missing_values df) of
            Inl _ \<Rightarrow> True
          | Inr df3 \<Rightarrow>
             (case clean_text pd df3 of
                Inl _ \<Rightarrow> True
              | Inr df4 \<Rightarrow>
                 (case filter_and_group pd df4 outdir
                         (print_msg (write_file w1 (outdir, ''sample_head.csv'')
                                       (CsvFrame (df\<lparr>rows := take 50 (rows df)\<rparr>)))
                                    (SampleSaved (outdir, ''sample_head.csv''))) of
                    Inl _ \<Rightarrow> True
                  | Inr (df5, w3) \<Rightarrow>
                     (case statistical_summaries df5 outdir w3 of
                        Inl _ \<Rightarrow> True
                      | Inr w4 \<Rightarrow> isl (export_raw_and_clean pd csv df5 outdir w4))))))"
  by (simp add: main_def Let_def split: sum.splits prod.splits)

lemma main_exit_code_parquet:
  "exit_code (main (pd\<lparr>to_parquet := f\<rparr>) csv outdir w) = exit_code (main pd csv outdir w)"
  unfolding exit_code_isl main_isl export_raw_and_clean_isl
  by (simp add: load_raw_parquet correct_types_parquet clean_text_parquet filter_and_group_parquet
      cong: sum.case_cong prod.case_cong)

text \<open>
  Claim C6. Let the source file be readable and the two JSON exports succeed. Whatever
  the Parquet writer does on either frame, \<open>export_raw_and_clean\<close> returns; both JSON
  files are written; for a Parquet write that raises, the warning with the name of
  that file is printed and no such file is written. The exit code of the whole run
  does not depend on the Parquet writer.
\<close>

theorem parquet_failure_is_caught:
  assumes "read_csv pd csv = Inr raw"
    and "to_json pd raw (outdir, ''collisions_raw.json'') = None"
    and "to_json pd clean (outdir, ''collisions_clean.json'') = None"
  shows "\<exists>w'. export_raw_and_clean pd csv clean outdir w = Inr w'
      \<and> files w' (outdir, ''collisions_raw.json'') = Some (JsonLines raw)
      \<and> files w' (outdir, ''collisions_clean.json'') = Some (JsonLines clean)
      \<and> console w' = console w @
          [ReloadRaw csv,
           JsonWritten (outdir, ''collisions_raw.json''),
           (case to_parquet pd raw (outdir, ''collisions_raw.parquet'') of
              None \<Rightarrow> ParquetWritten (outdir, ''collisions_raw.parquet'')
            | Some e \<Rightarrow> ParquetSkipped ''collisions_raw.parquet'' e),
           JsonWritten (outdir, ''collisions_clean.json''),
           (case to_parquet pd clean (outdir, ''collisions_clean.parquet'') of
              None \<Rightarrow> ParquetWritten (outdir, ''collisions_clean.parquet'')
            | Some e \<Rightarrow> ParquetSkipped ''collisions_clean.parquet'' e)]
      \<and> (to_parquet pd raw (outdir, ''collisions_raw.parquet'') \<noteq> None \<longrightarrow>
            files w' (outdir, ''collisions_raw.parquet'') = files w (outdir, ''collisions_raw.parquet''))
      \<and> (to_parquet pd clean (outdir, ''collisions_clean.parquet'') \<noteq> None \<longrightarrow>
            files w' (outdir, ''collisions_clean.parquet'') = files w (outdir, ''collisions_clean.parquet''))
      \<and> (\<forall>f csv' w0. exit_code (main (pd\<lparr>to_parquet := f\<rparr>) csv' outdir w0)
                        = exit_code (main pd csv' outdir w0))"
  using assms
  by (auto simp: export_raw_and_clean_def Let_def safe_to_parquet_def write_file_def print_msg_def
      main_exit_code_parquet split: option.splits)

lemma scenario_main_exit_code:
  "exit_code (main (no_parquet_env scenario) ''crashes.csv'' ''outputs'' empty_world) = 0"
proof -
  let ?E = "no_parquet_env scenario"
  have 0: "read_csv ?E ''crashes.csv'' = Inr scenario" "to_json ?E d q = None" for d q
    by (simp_all add: no_parquet_env_def)
  have 1: "fg_table scenario_clean = Inr scenario_year" by code_simp
  have 2: "\<forall>c \<in> set (ensure_columns_exist scenario_year INJURY_COLS). is_numeric_col scenario_year c"
    by code_simp
  have 3: "ss_error scenario_year = None" by code_simp
  have fg: "filter_and_group (no_parquet_env scenario) scenario_clean ''outputs'' w
     = Inr (scenario_year,
            apply_updates (fg_updates (no_parquet_env scenario) scenario_year ''outputs'') (fg_msgs scenario_clean) w)" for w
    using 2 by (simp add: filter_and_group_eq 1)
  have ss: "statistical_summaries scenario_year ''outputs'' w
     = Inr (apply_updates (ss_updates scenario_year ''outputs'') (ss_msgs scenario_year) w)" for w
    by (simp add: statistical_summaries_eq 3)
  have "\<not> isl (main ?E ''crashes.csv'' ''outputs'' empty_world)"
    unfolding main_isl export_raw_and_clean_isl
    by (simp add: load_raw_def 0 scenario_typed_eq scenario_clean_eq fg ss)
  then show ?thesis by (simp add: exit_code_isl)
qed

theorem parquet_failure_is_caught_witness:
  "read_csv (no_parquet_env scenario) ''crashes.csv'' = Inr scenario
   \<and> to_json (no_parquet_env scenario) scenario (''outputs'', ''collisions_raw.json'') = None
   \<and> to_json (no_parquet_env scenario) scenario_year (''outputs'', ''collisions_clean.json'') = None
   \<and> (case export_raw_and_clean (no_parquet_env scenario) ''crashes.csv'' scenario_year
              ''outputs'' empty_world of
         Inl _ \<Rightarrow> False
       | Inr w' \<Rightarrow>
           files w' (''outputs'', ''collisions_raw.json'') = Some (JsonLines scenario)
         \<and> files w' (''outputs'', ''collisions_clean.json'') = Some (JsonLines scenario_year)
         \<and> files w' (''outputs'', ''collisions_raw.parquet'') = None
         \<and> files w' (''outputs'', ''collisions_clean.parquet'') = None
         \<and> console w' =
             [ReloadRaw ''crashes.csv'',
              JsonWritten (''outputs'', ''collisions_raw.json''),
              ParquetSkipped ''collisions_raw.parquet''
                (ImportError ''Unable to find a usable engine''),
              JsonWritten (''outputs'', ''collisions_clean.json''),
              ParquetSkipped ''collisions_clean.parquet''
                (ImportError ''Unable to find a usable engine'')])
   \<and> exit_code (main (no_parquet_env scenario) ''crashes.csv'' ''outputs'' empty_world) = 0
   \<and> exit_code (main ((no_parquet_env scenario)\<lparr>to_parquet := \<lambda>df p. None\<rparr>)
                  ''crashes.csv'' ''outputs'' empty_world) = 0"
proof -
  let ?E = "no_parquet_env scenario"
  have h1: "read_csv ?E ''crashes.csv'' = Inr scenario"
    by (simp add: no_parquet_env_def)
  have h2: "to_json ?E scenario (''outputs'', ''collisions_raw.json'') = None"
    by (simp add: no_parquet_env_def)
  have h3: "to_json ?E scenario_year (''outputs'', ''collisions_clean.json'') = None"
    by (simp add: no_parquet_env_def)
  have p: "to_parquet ?E d q = Some (ImportError ''Unable to find a usable engine'')" for d q
    by (simp add: no_parquet_env_def)
  have x: "exit_code (main ?E ''crashes.csv'' ''outputs'' empty_world) = 0"
    by (rule scenario_main_exit_code)
  have e: "files empty_world q = None" "console empty_world = []" for q
    by (simp_all add: empty_world_def)
  from parquet_failure_is_caught [OF h1 h2 h3, of empty_world]
  obtain w' where w':
    "export_raw_and_clean ?E ''crashes.csv'' scenario_year ''outputs'' empty_world = Inr w'"
    "files w' (''outputs'', ''collisions_raw.json'') = Some (JsonLines scenario)"
    "files w' (''outputs'', ''collisions_clean.json'') = Some (JsonLines scenario_year)"
    "files w' (''outputs'', ''collisions_raw.parquet'') = None"
    "files w' (''outputs'', ''collisions_clean.parquet'') = None"
    "console w' =
             [ReloadRaw ''crashes.csv'',
              JsonWritten (''outputs'', ''collisions_raw.json''),
              ParquetSkipped ''collisions_raw.parquet''
                (ImportError ''Unable to find a usable engine''),
              JsonWritten (''outputs'', ''collisions_clean.json''),
              ParquetSkipped ''collisions_clean.parquet''
                (ImportError ''Unable to find a usable engine'')]"
    and ex: "\<And>f. exit_code (main (?E\<lparr>to_parquet := f\<rparr>) ''crashes.csv'' ''outputs'' empty_world)
                = exit_code (main ?E ''crashes.csv'' ''outputs'' empty_world)"
    unfolding p e by auto
  show ?thesis
    using h1 h2 h3 w' ex x by simp
qed


subsection \<open>The table after stage 5, and the order of stages 5 and 6\<close>

lemma fg_table_col_names:
  assumes "fg_table df = Inr df'"
  shows "col_names df' =
     (if ''CRASH_DATE'' \<in> set (col_names df) \<and> ''YEAR'' \<notin> set (col_names df)
      then col_names df @ [''YEAR''] else col_names df)"
  using assms
  by (auto simp: fg_table_def dt_year_def col_names_assign_col split: if_splits)

lemma fg_table_no_date:
  assumes "fg_table df = Inr df'" and "''CRASH_DATE'' \<notin> set (col_names df)"
  shows "df' = df"
  using assms by (simp add: fg_table_def)

lemma fg_table_length:
  assumes "fg_table df = Inr df'"
  shows "length (rows df') = length (rows df)"
  using assms
  by (auto simp: fg_table_def length_rows_assign_col split: if_splits dest!: dt_year_Inr)

lemma fg_table_year:
  assumes "fg_table df = Inr df'" and "''CRASH_DATE'' \<in> set (col_names df)"
  shows "list_all2 is_year_of (col_values df ''CRASH_DATE'') (col_values df' ''YEAR'')"
proof -
  have a: "list_all2 is_year_of (col_values df ''CRASH_DATE'')
             (map (\<lambda>r. case get_cell r ''CRASH_DATE'' of TsV t \<Rightarrow> IntV (ts_year t) | _ \<Rightarrow> NA) (rows df))"
    by (simp add: col_values_def list_all2_map1 list_all2_map2 list_all2_same is_year_of_def
        split: cell.splits)
  have b: "list_all2 is_year_of (col_values df ''CRASH_DATE'')
             (map (\<lambda>r. case get_cell r ''CRASH_DATE'' of TsV t \<Rightarrow> FloatV (of_int (ts_year t)) | _ \<Rightarrow> NA)
                (rows df))"
    by (simp add: col_values_def list_all2_map1 list_all2_map2 list_all2_same is_year_of_def
        split: cell.splits)
  from assms have "dt_year df ''CRASH_DATE'' ''YEAR'' = Inr df'"
    by (simp add: fg_table_def)
  then show ?thesis
    using a b by (auto simp: dt_year_def col_values_assign_col split: if_splits)
qed

lemma YEAR_not_injury: "''YEAR'' \<notin> set INJURY_COLS"
  by (simp add: INJURY_COLS_def)

lemma fg_table_mem:
  assumes "fg_table df = Inr df'" and "k \<noteq> ''YEAR''"
  shows "(k \<in> set (col_names df')) = (k \<in> set (col_names df))"
  using fg_table_frame(3) [OF assms] by (simp add: has_col_def)

lemma fg_table_injuries:
  assumes "fg_table df = Inr df'"
  shows "ensure_columns_exist df' INJURY_COLS = ensure_columns_exist df INJURY_COLS"
  unfolding ensure_columns_exist_def
proof (rule filter_cong [OF refl])
  fix c assume "c \<in> set INJURY_COLS"
  then have "c \<noteq> ''YEAR''" using YEAR_not_injury by auto
  then show "(c \<in> set (col_names df')) = (c \<in> set (col_names df))"
    by (rule fg_table_mem [OF assms])
qed

lemma is_numeric_col_cong:
  "dtype_of d c = dtype_of d' c \<Longrightarrow> col_values d c = col_values d' c
   \<Longrightarrow> is_numeric_col d c = is_numeric_col d' c"
  by (simp add: is_numeric_col_def cong: option.case_cong dtype.case_cong)

lemma select_cols_cong:
  assumes "\<And>c. c \<in> set cs \<Longrightarrow> dtype_of d c = dtype_of d' c \<and> col_values d c = col_values d' c"
  shows "select_cols d cs = select_cols d' cs"
  unfolding select_cols_def using assms by (intro map_cong) auto

lemma fg_table_select_injuries:
  assumes "fg_table df = Inr df'"
  shows "select_cols df' (ensure_columns_exist df INJURY_COLS)
         = select_cols df (ensure_columns_exist df INJURY_COLS)"
proof (rule select_cols_cong)
  fix c assume "c \<in> set (ensure_columns_exist df INJURY_COLS)"
  then have "c \<in> set INJURY_COLS" by (simp add: ensure_columns_exist_def)
  then have k: "c \<noteq> ''YEAR''" using YEAR_not_injury by auto
  show "dtype_of df' c = dtype_of df c \<and> col_values df' c = col_values df c"
    using fg_table_frame(1,2) [OF assms k] by simp
qed

lemma fg_table_ss_error:
  assumes "fg_table df = Inr df'"
  shows "ss_error df' = ss_error df"
proof -
  have k: "''NUMBER OF PERSONS INJURED'' \<noteq> ''YEAR''" by simp
  have "is_numeric_col df' ''NUMBER OF PERSONS INJURED'' = is_numeric_col df ''NUMBER OF PERSONS INJURED''"
    by (rule is_numeric_col_cong) (rule fg_table_frame [OF assms k])+
  then show ?thesis
    unfolding ss_error_def fg_table_injuries [OF assms] fg_table_mem [OF assms k] by simp
qed

lemma fg_table_ss_updates:
  assumes "fg_table df = Inr df'"
  shows "ss_updates df' outdir = ss_updates df outdir"
proof -
  have k1: "''CONTRIBUTING FACTOR VEHICLE 1'' \<noteq> ''YEAR''" and k2: "''BOROUGH'' \<noteq> ''YEAR''"
    by simp_all
  have g: "groupby_size df' ''BOROUGH'' = groupby_size df ''BOROUGH''"
    by (rule groupby_size_cong) (rule fg_table_frame(1) [OF assms k2])
  show ?thesis
    unfolding ss_updates_def fg_table_injuries [OF assms] fg_table_select_injuries [OF assms]
      fg_table_mem [OF assms k1] fg_table_mem [OF assms k2] g
      fg_table_frame(1) [OF assms k1] ..
qed

lemma fg_table_ss_msgs:
  assumes "fg_table df = Inr df'"
  shows "ss_msgs df' = ss_msgs df"
proof -
  have k1: "''NUMBER OF PERSONS INJURED'' \<noteq> ''YEAR''" and k2: "''BOROUGH'' \<noteq> ''YEAR''"
    by simp_all
  have g: "groupby_size df' ''BOROUGH'' = groupby_size df ''BOROUGH''"
    by (rule groupby_size_cong) (rule fg_table_frame(1) [OF assms k2])
  show ?thesis
    unfolding ss_msgs_def fg_table_injuries [OF assms]
      fg_table_mem [OF assms k2] g fg_table_frame(1) [OF assms k1] ..
qed

lemma fg_updates_names:
  "p \<in> fst ` set (fg_updates pd d outdir) \<Longrightarrow>
   snd p \<in> {''collisions_by_borough.csv'', ''collisions_by_year.csv'', ''pivot_year_borough.csv'',
            ''injury_correlation.csv''}"
  by (auto simp: fg_updates_def split: if_splits)

lemma ss_updates_names:
  "p \<in> fst ` set (ss_updates d outdir) \<Longrightarrow>
   snd p \<in> {''injury_describe.csv'', ''top_contributing_factors_v1.csv'',
            ''collisions_by_borough_full.csv''}"
  by (auto simp: ss_updates_def split: if_splits)

lemma fg_ss_disjoint:
  "p \<in> fst ` set (fg_updates pd d outdir) \<Longrightarrow> p \<notin> fst ` set (ss_updates d' outdir)"
proof
  assume a: "p \<in> fst ` set (fg_updates pd d outdir)" and b: "p \<in> fst ` set (ss_updates d' outdir)"
  show False using fg_updates_names [OF a] ss_updates_names [OF b] by auto
qed

lemma fold_updates_commute:
  assumes "\<And>p. p \<in> fst ` set us \<Longrightarrow> p \<notin> fst ` set vs"
  shows "fold (\<lambda>(p, a) f. f(p \<mapsto> a)) vs (fold (\<lambda>(p, a) f. f(p \<mapsto> a)) us f)
       = fold (\<lambda>(p, a) f. f(p \<mapsto> a)) us (fold (\<lambda>(p, a) f. f(p \<mapsto> a)) vs f)"
proof
  fix p
  have "map_of (rev us) p = None \<or> map_of (rev vs) p = None"
    using assms [of p] by (auto simp: map_of_eq_None_iff)
  then show "fold (\<lambda>(p, a) f. f(p \<mapsto> a)) vs (fold (\<lambda>(p, a) f. f(p \<mapsto> a)) us f) p
       = fold (\<lambda>(p, a) f. f(p \<mapsto> a)) us (fold (\<lambda>(p, a) f. f(p \<mapsto> a)) vs f) p"
    by (auto simp: fold_updates_lookup split: option.splits)
qed

lemma files_apply_updates:
  "files (apply_updates us ms w) = fold (\<lambda>(p, a) f. f(p \<mapsto> a)) us (files w)"
  and console_apply_updates: "console (apply_updates us ms w) = console w @ ms"
  by (simp_all add: apply_updates_def)

lemma agg_then_stats_eq:
  "agg_then_stats pd df outdir w =
     (case fg_table df of
        Inl e \<Rightarrow> Inl e
      | Inr df1 \<Rightarrow>
          (if \<forall>c \<in> set (ensure_columns_exist df1 INJURY_COLS). is_numeric_col df1 c
           then (case ss_error df of
                   Some e \<Rightarrow> Inl e
                 | None \<Rightarrow>
                     Inr (df1, apply_updates (ss_updates df outdir) (ss_msgs df)
                                 (apply_updates (fg_updates pd df1 outdir) (fg_msgs df) w)))
           else Inl (ValueError ''could not convert string to float'')))"
proof (cases "fg_table df")
  case (Inl e)
  then show ?thesis by (simp add: agg_then_stats_def filter_and_group_eq)
next
  case (Inr df1)
  show ?thesis
    unfolding agg_then_stats_def filter_and_group_eq Inr
    by (simp add: statistical_summaries_eq fg_table_ss_error [OF Inr] fg_table_ss_updates [OF Inr]
        fg_table_ss_msgs [OF Inr] split: option.splits)
qed

lemma stats_then_agg_eq:
  "stats_then_agg pd df outdir w =
     (case ss_error df of
        Some e \<Rightarrow> Inl e
      | None \<Rightarrow>
          (case fg_table df of
             Inl e \<Rightarrow> Inl e
           | Inr df1 \<Rightarrow>
               (if \<forall>c \<in> set (ensure_columns_exist df1 INJURY_COLS). is_numeric_col df1 c
                then Inr (df1, apply_updates (fg_updates pd df1 outdir) (fg_msgs df)
                                 (apply_updates (ss_updates df outdir) (ss_msgs df) w))
                else Inl (ValueError ''could not convert string to float''))))"
  by (simp add: stats_then_agg_def statistical_summaries_eq filter_and_group_eq split: option.splits)

lemma completed_output_order:
  "completed_output (agg_then_stats pd df outdir w) = completed_output (stats_then_agg pd df outdir w)"
proof (cases "fg_table df")
  case (Inl e)
  then show ?thesis
    unfolding agg_then_stats_eq stats_then_agg_eq
    by (simp add: completed_output_def split: option.splits)
next
  case (Inr df1)
  have c: "files (apply_updates (ss_updates df outdir) (ss_msgs df)
                    (apply_updates (fg_updates pd df1 outdir) (fg_msgs df) w))
         = files (apply_updates (fg_updates pd df1 outdir) (fg_msgs df)
                    (apply_updates (ss_updates df outdir) (ss_msgs df) w))"
    unfolding files_apply_updates by (rule fold_updates_commute) (rule fg_ss_disjoint)
  show ?thesis
  proof (cases "\<forall>c \<in> set (ensure_columns_exist df1 INJURY_COLS). is_numeric_col df1 c")
    case True
    show ?thesis
    proof (cases "ss_error df")
      case None
      show ?thesis
        unfolding agg_then_stats_eq stats_then_agg_eq Inr None
        using True by (simp add: completed_output_def c)
    next
      case (Some e)
      show ?thesis
        unfolding agg_then_stats_eq stats_then_agg_eq Inr Some
        using True by (simp add: completed_output_def)
    qed
  next
    case False
    show ?thesis
      unfolding agg_then_stats_eq stats_then_agg_eq Inr
      by (simp only: sum.case if_not_P [OF False])
        (simp add: completed_output_def split: option.splits)
  qed
qed

lemma console_order:
  assumes "agg_then_stats pd df outdir w = Inr (d, wa)" and "stats_then_agg pd df outdir w = Inr (d', wb)"
  shows "console wa = console w @ fg_msgs df @ ss_msgs df"
    and "console wb = console w @ ss_msgs df @ fg_msgs df"
  using assms unfolding agg_then_stats_eq stats_then_agg_eq
  by (auto simp: console_apply_updates split: sum.splits option.splits if_splits)

lemma export_clean_json:
  assumes "export_raw_and_clean pd csv d outdir w = Inr w'"
  shows "files w' (outdir, ''collisions_clean.json'') = Some (JsonLines d)"
  using assms
  by (auto simp: export_raw_and_clean_def Let_def safe_to_parquet_def write_file_def print_msg_def
      split: sum.splits option.splits)

lemma main_Inr_iff:
  "main pd csv outdir w0 = Inr wfin \<longleftrightarrow>
     (\<exists>raw w1 t3 t4 t5 wb wc wd.
         load_raw pd csv w0 = Inr (raw, w1)
       \<and> correct_types pd (handle_missing_values raw) = Inr t3
       \<and> clean_text pd t3 = Inr t4
       \<and> filter_and_group pd t4 outdir
            (print_msg (write_file w1 (outdir, ''sample_head.csv'')
                          (CsvFrame (raw\<lparr>rows := take 50 (rows raw)\<rparr>)))
                       (SampleSaved (outdir, ''sample_head.csv''))) = Inr (t5, wb)
       \<and> statistical_summaries t5 outdir wb = Inr wc
       \<and> export_raw_and_clean pd csv t5 outdir wc = Inr wd
       \<and> wfin = print_msg wd Done)"
  by (auto simp: main_def Let_def split: sum.splits prod.splits)

lemma load_raw_Inr:
  assumes "load_raw pd csv w0 = Inr (raw, w1)"
  shows "read_csv pd csv = Inr raw"
  using assms by (auto simp: load_raw_def Let_def split: sum.splits)

lemma main_clean_json:
  assumes "main pd csv outdir w0 = Inr wfin"
  shows "\<exists>raw t3 t4 t5 wa wb.
           read_csv pd csv = Inr raw
         \<and> correct_types pd (handle_missing_values raw) = Inr t3
         \<and> clean_text pd t3 = Inr t4
         \<and> filter_and_group pd t4 outdir wa = Inr (t5, wb)
         \<and> files wfin (outdir, ''collisions_clean.json'') = Some (JsonLines t5)"
proof -
  from assms [unfolded main_Inr_iff] obtain raw w1 t3 t4 t5 wa wb wc wd where
    1: "load_raw pd csv w0 = Inr (raw, w1)"
    and 3: "correct_types pd (handle_missing_values raw) = Inr t3"
    and 4: "clean_text pd t3 = Inr t4"
    and 5: "filter_and_group pd t4 outdir wa = Inr (t5, wb)"
    and 7: "export_raw_and_clean pd csv t5 outdir wc = Inr wd"
    and f: "wfin = print_msg wd Done"
    by blast
  have "files wfin (outdir, ''collisions_clean.json'') = Some (JsonLines t5)"
    using export_clean_json [OF 7] by (simp add: f print_msg_def)
  with load_raw_Inr [OF 1] 3 4 5 show ?thesis by blast
qed

lemma scenario_groups_any:
  "filter_and_group (no_parquet_env scenario) scenario_clean ''outputs'' w
     = Inr (scenario_year,
            apply_updates (fg_updates (no_parquet_env scenario) scenario_year ''outputs'') (fg_msgs scenario_clean) w)"
proof -
  have 1: "fg_table scenario_clean = Inr scenario_year" by code_simp
  have 2: "\<forall>c \<in> set (ensure_columns_exist scenario_year INJURY_COLS). is_numeric_col scenario_year c"
    by code_simp
  show ?thesis using 2 by (simp add: filter_and_group_eq 1)
qed

lemma scenario_main_returns:
  "\<exists>wfin. main (no_parquet_env scenario) ''crashes.csv'' ''outputs'' empty_world = Inr wfin"
  using scenario_main_exit_code
  by (cases "main (no_parquet_env scenario) ''crashes.csv'' ''outputs'' empty_world")
    (simp_all add: exit_code_def)

lemma scenario_pipeline:
  assumes "read_csv (no_parquet_env scenario) ''crashes.csv'' = Inr raw"
    and "correct_types (no_parquet_env scenario) (handle_missing_values raw) = Inr t3"
    and "clean_text (no_parquet_env scenario) t3 = Inr t4"
    and "filter_and_group (no_parquet_env scenario) t4 ''outputs'' wa = Inr (t5, wb)"
  shows "t4 = scenario_clean \<and> t5 = scenario_year"
proof -
  from assms(1) have "raw = scenario" by (simp add: no_parquet_env_def)
  with assms(2) have "t3 = scenario_typed" by (simp add: scenario_typed_eq)
  with assms(3) have 4: "t4 = scenario_clean" by (simp add: scenario_clean_eq)
  with assms(4) have "t5 = scenario_year" by (simp add: scenario_groups_any)
  with 4 show ?thesis by simp
qed

text \<open>
  Claim C3. The claim says the table the exporter writes is the table \<open>clean_text\<close>
  produced. It is not: \<open>filter_and_group\<close> assigns the column \<open>YEAR\<close> to the frame it
  is given. What holds: when \<open>filter_and_group\<close> returns, the table has the same rows
  in the same order and the same names, dtypes and cells in every column but \<open>YEAR\<close>;
  \<open>YEAR\<close> is appended when the table has \<open>CRASH_DATE\<close> and had no \<open>YEAR\<close>, and holds
  the year of each date; without \<open>CRASH_DATE\<close> the table is unchanged. Stages 5 and 6
  complete in one order exactly when they complete in the other, with the same table
  and the same files, and the same printed lines, those of stage 5 and those of stage
  6 swapped. The table in \<open>collisions_clean.json\<close> is the one \<open>filter_and_group\<close>
  returned for the table of \<open>clean_text\<close>.
\<close>

theorem aggregator_changes_only_year:
  "(\<forall>df' w'. filter_and_group pd df outdir w = Inr (df', w') \<longrightarrow>
        col_names df' =
          (if ''CRASH_DATE'' \<in> set (col_names df) \<and> ''YEAR'' \<notin> set (col_names df)
           then col_names df @ [''YEAR''] else col_names df)
      \<and> length (rows df') = length (rows df)
      \<and> (\<forall>k. k \<noteq> ''YEAR'' \<longrightarrow>
             col_values df' k = col_values df k \<and> dtype_of df' k = dtype_of df k)
      \<and> (''CRASH_DATE'' \<in> set (col_names df) \<longrightarrow>
             list_all2 is_year_of (col_values df ''CRASH_DATE'') (col_values df' ''YEAR''))
      \<and> (''CRASH_DATE'' \<notin> set (col_names df) \<longrightarrow> df' = df))
   \<and> completed_output (agg_then_stats pd df outdir w) = completed_output (stats_then_agg pd df outdir w)
   \<and> (\<forall>d wa d' wb. agg_then_stats pd df outdir w = Inr (d, wa)
          \<and> stats_then_agg pd df outdir w = Inr (d', wb) \<longrightarrow>
            console wa = console w @ fg_msgs df @ ss_msgs df
          \<and> console wb = console w @ ss_msgs df @ fg_msgs df)
   \<and> (\<forall>csv w0 wfin. main pd csv outdir w0 = Inr wfin \<longrightarrow>
        (\<exists>raw t3 t4 t5 wa wb.
             read_csv pd csv = Inr raw
           \<and> correct_types pd (handle_missing_values raw) = Inr t3
           \<and> clean_text pd t3 = Inr t4
           \<and> filter_and_group pd t4 outdir wa = Inr (t5, wb)
           \<and> files wfin (outdir, ''collisions_clean.json'') = Some (JsonLines t5)))"
proof (intro conjI allI impI)
  fix df' w' assume a: "filter_and_group pd df outdir w = Inr (df', w')"
  note t = filter_and_group_Inr(1) [OF a]
  show "col_names df' =
          (if ''CRASH_DATE'' \<in> set (col_names df) \<and> ''YEAR'' \<notin> set (col_names df)
           then col_names df @ [''YEAR''] else col_names df)"
    by (rule fg_table_col_names [OF t])
  show "length (rows df') = length (rows df)" by (rule fg_table_length [OF t])
  show "col_values df' k = col_values df k" if "k \<noteq> ''YEAR''" for k
    by (rule fg_table_frame(1) [OF t that])
  show "dtype_of df' k = dtype_of df k" if "k \<noteq> ''YEAR''" for k
    by (rule fg_table_frame(2) [OF t that])
  show "list_all2 is_year_of (col_values df ''CRASH_DATE'') (col_values df' ''YEAR'')"
    if "''CRASH_DATE'' \<in> set (col_names df)"
    by (rule fg_table_year [OF t that])
  show "df' = df" if "''CRASH_DATE'' \<notin> set (col_names df)"
    by (rule fg_table_no_date [OF t that])
next
  show "completed_output (agg_then_stats pd df outdir w) = completed_output (stats_then_agg pd df outdir w)"
    by (rule completed_output_order)
next
  fix d wa d' wb
  assume "agg_then_stats pd df outdir w = Inr (d, wa) \<and> stats_then_agg pd df outdir w = Inr (d', wb)"
  then have a: "agg_then_stats pd df outdir w = Inr (d, wa)"
    and b: "stats_then_agg pd df outdir w = Inr (d', wb)" by simp_all
  show "console wa = console w @ fg_msgs df @ ss_msgs df" by (rule console_order(1) [OF a b])
  show "console wb = console w @ ss_msgs df @ fg_msgs df" by (rule console_order(2) [OF a b])
next
  fix csv w0 wfin assume "main pd csv outdir w0 = Inr wfin"
  then show "\<exists>raw t3 t4 t5 wa wb.
             read_csv pd csv = Inr raw
           \<and> correct_types pd (handle_missing_values raw) = Inr t3
           \<and> clean_text pd t3 = Inr t4
           \<and> filter_and_group pd t4 outdir wa = Inr (t5, wb)
           \<and> files wfin (outdir, ''collisions_clean.json'') = Some (JsonLines t5)"
    by (rule main_clean_json)
qed

theorem aggregator_changes_only_year_witness:
  "filter_and_group (no_parquet_env scenario) scenario_clean ''outputs'' empty_world
     = Inr (scenario_year,
            apply_updates (fg_updates (no_parquet_env scenario) scenario_year ''outputs'') (fg_msgs scenario_clean) empty_world)
   \<and> col_names scenario_year = col_names scenario_clean @ [''YEAR'']
   \<and> length (rows scenario_year) = length (rows scenario_clean)
   \<and> col_values scenario_year ''BOROUGH'' = col_values scenario_clean ''BOROUGH''
   \<and> dtype_of scenario_year ''BOROUGH'' = dtype_of scenario_clean ''BOROUGH''
   \<and> list_all2 is_year_of (col_values scenario_clean ''CRASH_DATE'') (col_values scenario_year ''YEAR'')
   \<and> completed_output (agg_then_stats (no_parquet_env scenario) scenario_clean ''outputs'' empty_world)
       = completed_output (stats_then_agg (no_parquet_env scenario) scenario_clean ''outputs'' empty_world)
   \<and> (case main (no_parquet_env scenario) ''crashes.csv'' ''outputs'' empty_world of
         Inl _ \<Rightarrow> False
       | Inr wfin \<Rightarrow> files wfin (''outputs'', ''collisions_clean.json'') = Some (JsonLines scenario_year))"
proof -
  note T = aggregator_changes_only_year
    [where pd = "no_parquet_env scenario" and df = scenario_clean and outdir = "''outputs''"
       and w = empty_world]
  note g = scenario_groups_any [of empty_world]
  note T1 = T [THEN conjunct1, rule_format, OF g]
  have cd: "''CRASH_DATE'' \<in> set (col_names scenario_clean)" by code_simp
  have ny: "''YEAR'' \<notin> set (col_names scenario_clean)" by code_simp
  have k: "''BOROUGH'' \<noteq> ''YEAR''" by simp
  have A1: "col_names scenario_year = col_names scenario_clean @ [''YEAR'']"
    using T1 [THEN conjunct1] cd ny by (simp only: simp_thms if_True)
  have A2: "length (rows scenario_year) = length (rows scenario_clean)"
    by (rule T1 [THEN conjunct2, THEN conjunct1])
  note A3 = T1 [THEN conjunct2, THEN conjunct2, THEN conjunct1, rule_format, OF k]
  note A4 = T1 [THEN conjunct2, THEN conjunct2, THEN conjunct2, THEN conjunct1, rule_format, OF cd]
  note B = T [THEN conjunct2, THEN conjunct1]
  obtain wfin where m: "main (no_parquet_env scenario) ''crashes.csv'' ''outputs'' empty_world = Inr wfin"
    using scenario_main_returns by blast
  from T [THEN conjunct2, THEN conjunct2, THEN conjunct2, rule_format, OF m]
  obtain raw t3 t4 t5 wa wb where p:
    "read_csv (no_parquet_env scenario) ''crashes.csv'' = Inr raw"
    "correct_types (no_parquet_env scenario) (handle_missing_values raw) = Inr t3"
    "clean_text (no_parquet_env scenario) t3 = Inr t4"
    "filter_and_group (no_parquet_env scenario) t4 ''outputs'' wa = Inr (t5, wb)"
    "files wfin (''outputs'', ''collisions_clean.json'') = Some (JsonLines t5)"
    by blast
  have "t5 = scenario_year" using scenario_pipeline [OF p(1-4)] by simp
  with p(5) have C: "files wfin (''outputs'', ''collisions_clean.json'') = Some (JsonLines scenario_year)"
    by simp
  have M: "(case main (no_parquet_env scenario) ''crashes.csv'' ''outputs'' empty_world of
         Inl _ \<Rightarrow> False
       | Inr wfin \<Rightarrow> files wfin (''outputs'', ''collisions_clean.json'') = Some (JsonLines scenario_year))"
    unfolding m using C by simp
  show ?thesis
    by (intro conjI g A1 A2 A3 [THEN conjunct1] A3 [THEN conjunct2] A4 B M)
qed

text \<open>
  The table in \<open>collisions_clean.json\<close> of the scenario has the column \<open>YEAR\<close>, which
  the table \<open>clean_text\<close> returned does not have.
\<close>

theorem exported_table_has_year_column:
  "clean_text (no_parquet_env scenario) scenario_typed = Inr scenario_clean
   \<and> (case main (no_parquet_env scenario) ''crashes.csv'' ''outputs'' empty_world of
         Inl _ \<Rightarrow> False
       | Inr wfin \<Rightarrow> files wfin (''outputs'', ''collisions_clean.json'') = Some (JsonLines scenario_year))
   \<and> col_names scenario_clean =
       [''UNIQUE KEY'', ''BOROUGH'', ''LATITUDE'', ''LONGITUDE'', ''NUMBER OF PERSONS INJURED'',
        ''CONTRIBUTING FACTOR VEHICLE 1'', ''CRASH_DATE'']
   \<and> col_names scenario_year =
       [''UNIQUE KEY'', ''BOROUGH'', ''LATITUDE'', ''LONGITUDE'', ''NUMBER OF PERSONS INJURED'',
        ''CONTRIBUTING FACTOR VEHICLE 1'', ''CRASH_DATE'', ''YEAR'']
   \<and> scenario_year \<noteq> scenario_clean"
proof -
  obtain wfin where m: "main (no_parquet_env scenario) ''crashes.csv'' ''outputs'' empty_world = Inr wfin"
    using scenario_main_returns by blast
  from main_clean_json [OF m] obtain raw t3 t4 t5 wa wb where p:
    "read_csv (no_parquet_env scenario) ''crashes.csv'' = Inr raw"
    "correct_types (no_parquet_env scenario) (handle_missing_values raw) = Inr t3"
    "clean_text (no_parquet_env scenario) t3 = Inr t4"
    "filter_and_group (no_parquet_env scenario) t4 ''outputs'' wa = Inr (t5, wb)"
    "files wfin (''outputs'', ''collisions_clean.json'') = Some (JsonLines t5)"
    by blast
  have "t5 = scenario_year" using scenario_pipeline [OF p(1-4)] by simp
  with p(5) have C: "files wfin (''outputs'', ''collisions_clean.json'') = Some (JsonLines scenario_year)"
    by simp
  have n1: "col_names scenario_clean =
       [''UNIQUE KEY'', ''BOROUGH'', ''LATITUDE'', ''LONGITUDE'', ''NUMBER OF PERSONS INJURED'',
        ''CONTRIBUTING FACTOR VEHICLE 1'', ''CRASH_DATE'']"
    by code_simp
  have n2: "col_names scenario_year =
       [''UNIQUE KEY'', ''BOROUGH'', ''LATITUDE'', ''LONGITUDE'', ''NUMBER OF PERSONS INJURED'',
        ''CONTRIBUTING FACTOR VEHICLE 1'', ''CRASH_DATE'', ''YEAR'']"
    by code_simp
  have "col_names scenario_year \<noteq> col_names scenario_clean"
    unfolding n1 n2 by simp
  then have ne: "scenario_year \<noteq> scenario_clean" by auto
  show ?thesis
    using C n1 n2 ne by (simp add: m scenario_clean_eq)
qed


subsection \<open>The scenario of the specification\<close>

text \<open>
  Claim C1. On the three-row table of the scenario, \<open>handle_missing_values\<close>,
  \<open>correct_types\<close>, \<open>clean_text\<close> and \<open>filter_and_group\<close> all return; row 2 is dropped
  (the keys left are 1 and 3); the boroughs are Brooklyn and Queens; the first
  contributing factor of row 1 is null; the year is 2021 in both rows; the counts by
  year are \<open>{2021: 2}\<close> and the counts by borough are \<open>{Brooklyn: 1, Queens: 1}\<close>.
\<close>

theorem scenario_end_to_end:
  "(case correct_types (no_parquet_env scenario) (handle_missing_values scenario) of
      Inl _ \<Rightarrow> False
    | Inr t3 \<Rightarrow>
       (case clean_text (no_parquet_env scenario) t3 of
          Inl _ \<Rightarrow> False
        | Inr t4 \<Rightarrow>
           (case filter_and_group (no_parquet_env scenario) t4 ''outputs'' empty_world of
              Inl _ \<Rightarrow> False
            | Inr (t5, w) \<Rightarrow>
                col_values (handle_missing_values scenario) ''UNIQUE KEY'' = [IntV 1, IntV 3]
              \<and> col_values t4 ''UNIQUE KEY'' = [IntV 1, IntV 3]
              \<and> col_values t4 ''BOROUGH'' = [Str ''Brooklyn'', Str ''Queens'']
              \<and> col_values t4 ''CONTRIBUTING FACTOR VEHICLE 1'' = [NA, Str ''Unknown'']
              \<and> col_values t5 ''YEAR'' = [IntV 2021, IntV 2021]
              \<and> files w (''outputs'', ''collisions_by_year.csv'')
                  = Some (CsvCounts [(IntV 2021, 2)])
              \<and> files w (''outputs'', ''collisions_by_borough.csv'')
                  = Some (CsvCounts [(Str ''Brooklyn'', 1), (Str ''Queens'', 1)]))))"
  by code_simp

subsection \<open>Stage 3: a fractional injury count\<close>

text \<open>
  Claim C4. The claim says \<open>correct_types\<close> returns on every table. On the table whose
  injury count is 1.5 the cast to the nullable integer type raises \<open>TypeError\<close>, nothing
  catches it, and the run ends with exit code 1.
\<close>

theorem correct_types_raises_on_fractional_count:
  "correct_types (no_parquet_env fractional_table) (handle_missing_values fractional_table)
     = Inl (TypeError ''cannot safely cast non-equivalent float64 to int64'')
   \<and> exit_code (main (no_parquet_env fractional_table) ''crashes.csv'' ''outputs'' empty_world) = 1"
  by code_simp

end
